theory Spec2Isabelle
  imports Complex_Main
begin

section \<open>Runtime values\<close>

text \<open>
  The exceptions of the Python runtime that the modelled functions can raise. A function
  that can raise returns \<open>error + 'a\<close>, with \<open>Inl\<close> for the exception.
\<close>

datatype error = ValueError | TypeError | OverflowError | ZeroDivisionError | IndexError
  | UnicodeEncodeError | KeyError

text \<open>
  \<open>xs[index] = v\<close> on a Python list with an integer index: a negative index counts from
  the end, an index outside \<open>[-len, len)\<close> raises \<open>IndexError\<close>.
\<close>

definition list_setitem :: "'a list \<Rightarrow> int \<Rightarrow> 'a \<Rightarrow> error + 'a list" where
  "list_setitem xs index v =
     (if 0 \<le> index \<and> index < int (length xs) then Inr (xs[nat index := v])
      else if - int (length xs) \<le> index \<and> index < 0
      then Inr (xs[nat (int (length xs) + index) := v])
      else Inl IndexError)"

subsection \<open>Text\<close>

text \<open>
  A Python \<open>str\<close> is modelled as a list of 8-bit characters read as code points
  (Latin-1). \<open>is_space\<close> is the whitespace that \<open>str.strip()\<close>, \<open>int()\<close>, \<open>float()\<close>
  and the regular expression class \<open>\s\<close> recognise in that range. \<open>py_lower\<close> and
  \<open>py_upper\<close> map the ASCII letters; the results are only ever compared with ASCII
  words, which no other Latin-1 character can produce.
\<close>

definition ord :: "char \<Rightarrow> nat" where
  "ord c = of_char c"

definition is_space :: "char \<Rightarrow> bool" where
  "is_space c \<longleftrightarrow> (9 \<le> ord c \<and> ord c \<le> 13) \<or> (28 \<le> ord c \<and> ord c \<le> 32)
                   \<or> ord c = 133 \<or> ord c = 160"

definition is_digit :: "char \<Rightarrow> bool" where
  "is_digit c \<longleftrightarrow> 48 \<le> ord c \<and> ord c \<le> 57"

definition digit_val :: "char \<Rightarrow> int" where
  "digit_val c = int (ord c) - 48"

definition py_strip :: "string \<Rightarrow> string" where
  "py_strip s = rev (dropWhile is_space (rev (dropWhile is_space s)))"

definition lower_char :: "char \<Rightarrow> char" where
  "lower_char c = (if 65 \<le> ord c \<and> ord c \<le> 90 then char_of (ord c + 32) else c)"

definition upper_char :: "char \<Rightarrow> char" where
  "upper_char c = (if 97 \<le> ord c \<and> ord c \<le> 122 then char_of (ord c - 32) else c)"

definition py_lower :: "string \<Rightarrow> string" where
  "py_lower s = map lower_char s"

definition py_upper :: "string \<Rightarrow> string" where
  "py_upper s = map upper_char s"

fun startswith :: "string \<Rightarrow> string \<Rightarrow> bool" where
  "startswith s [] = True"
| "startswith [] (p # ps) = False"
| "startswith (c # cs) (p # ps) = (c = p \<and> startswith cs ps)"

definition endswith :: "string \<Rightarrow> string \<Rightarrow> bool" where
  "endswith s p = startswith (rev s) (rev p)"

text \<open>\<open>str(n)\<close> for an integer: decimal digits, with a leading minus sign.\<close>

fun nat_digits :: "nat \<Rightarrow> string" where
  "nat_digits n = (if n < 10 then [char_of (48 + n)] else nat_digits (n div 10) @ [char_of (48 + n mod 10)])"

definition str_of_int :: "int \<Rightarrow> string" where
  "str_of_int i = (if i < 0 then CHR ''-'' # nat_digits (nat (- i)) else nat_digits (nat i))"

subsection \<open>Floating-point values\<close>

text \<open>
  A Python \<open>float\<close>: not-a-number, the two infinities, or a finite value. A finite value
  is kept as an exact rational: the rounding of a double to 53 bits, and with it the
  underflow of tiny values to zero, is not modelled. Comparisons follow IEEE 754: every
  ordered comparison with \<open>FNaN\<close> is false.
\<close>

datatype pyfloat = FNaN | FNegInf | FFin rat | FPosInf

fun float_lt :: "pyfloat \<Rightarrow> pyfloat \<Rightarrow> bool" where
  "float_lt FNaN y = False"
| "float_lt x FNaN = False"
| "float_lt FNegInf y = (y \<noteq> FNegInf)"
| "float_lt FPosInf y = False"
| "float_lt (FFin a) FNegInf = False"
| "float_lt (FFin a) FPosInf = True"
| "float_lt (FFin a) (FFin b) = (a < b)"

definition float_gt :: "pyfloat \<Rightarrow> pyfloat \<Rightarrow> bool" where
  "float_gt x y = float_lt y x"

text \<open>
  \<open>float(i)\<close> for an integer raises \<open>OverflowError\<close> when \<open>i\<close> is too large for a double.
\<close>

definition float_of_int :: "int \<Rightarrow> error + pyfloat" where
  "float_of_int i =
     (if 2 ^ 1024 - 2 ^ 970 \<le> \<bar>i\<bar> then Inl OverflowError else Inr (FFin (of_int i)))"

text \<open>
  The float for a decimal literal of value \<open>q\<close>: a value that is too large for a double
  becomes an infinity.
\<close>

definition float_of_rat :: "rat \<Rightarrow> pyfloat" where
  "float_of_rat q =
     (if of_int (2 ^ 1024 - 2 ^ 970) \<le> \<bar>q\<bar> then (if q < 0 then FNegInf else FPosInf) else FFin q)"

subsection \<open>Parsing numbers from text\<close>

text \<open>
  \<open>digitpart\<close> reads the longest prefix of the form \<open>digit (["_"] digit)*\<close> and returns
  its digits and the rest of the text; \<open>None\<close> when the text does not start with a digit.
\<close>

fun digitpart_tail :: "string \<Rightarrow> int list \<times> string" where
  "digitpart_tail [] = ([], [])"
| "digitpart_tail [c] = (if is_digit c then ([digit_val c], []) else ([], [c]))"
| "digitpart_tail (c # d # cs) =
     (if is_digit c then (case digitpart_tail (d # cs) of (ds, r) \<Rightarrow> (digit_val c # ds, r))
      else if c = CHR ''_'' \<and> is_digit d
      then (case digitpart_tail cs of (ds, r) \<Rightarrow> (digit_val d # ds, r))
      else ([], c # d # cs))"

definition digitpart :: "string \<Rightarrow> (int list \<times> string) option" where
  "digitpart s =
     (case s of
        [] \<Rightarrow> None
      | c # cs \<Rightarrow> if is_digit c then (case digitpart_tail cs of (ds, r) \<Rightarrow> Some (digit_val c # ds, r))
                 else None)"

definition digits_value :: "int list \<Rightarrow> int" where
  "digits_value ds = foldl (\<lambda>acc d. 10 * acc + d) 0 ds"

text \<open>An optional sign: the factor it stands for and the rest of the text.\<close>

fun take_sign :: "string \<Rightarrow> int \<times> string" where
  "take_sign [] = (1, [])"
| "take_sign (c # cs) =
     (if c = CHR ''-'' then (- 1, cs) else if c = CHR ''+'' then (1, cs) else (1, c # cs))"

text \<open>
  \<open>int(s)\<close> for text, base 10: surrounding whitespace is dropped, then an optional sign and
  a digit part that uses up the text. \<open>None\<close> stands for \<open>ValueError\<close>. The limit on the
  number of digits that CPython 3.11 puts on \<open>int()\<close> and \<open>str()\<close> of integers, which can
  be switched off, is not modelled: integers are unbounded here.
\<close>

definition py_int :: "string \<Rightarrow> int option" where
  "py_int s =
     (case take_sign (py_strip s) of
        (sg, body) \<Rightarrow>
          (case digitpart body of
             Some (ds, []) \<Rightarrow> Some (sg * digits_value ds)
           | _ \<Rightarrow> None))"

text \<open>
  \<open>float(s)\<close> for text: surrounding whitespace is dropped; then an optional sign followed by
  \<open>inf\<close>, \<open>infinity\<close> or \<open>nan\<close> in any letter case, or by a decimal number
  \<open>digitpart ["." [digitpart]] [exponent]\<close> or \<open>"." digitpart [exponent]\<close> with
  \<open>exponent = ("e" | "E") [sign] digitpart\<close>. \<open>None\<close> stands for \<open>ValueError\<close>.
\<close>

definition pow10 :: "int \<Rightarrow> rat" where
  "pow10 k = (if 0 \<le> k then 10 ^ nat k else 1 / 10 ^ nat (- k))"

definition parse_exponent :: "string \<Rightarrow> int option" where
  "parse_exponent s =
     (case s of
        [] \<Rightarrow> Some 0
      | c # cs \<Rightarrow>
          if c = CHR ''e'' \<or> c = CHR ''E''
          then (case take_sign cs of
                  (sg, body) \<Rightarrow>
                    (case digitpart body of
                       Some (ds, []) \<Rightarrow> Some (sg * digits_value ds)
                     | _ \<Rightarrow> None))
          else None)"

definition parse_decimal :: "string \<Rightarrow> rat option" where
  "parse_decimal s =
     (case digitpart s of
        Some (ip, r) \<Rightarrow>
          (case r of
             CHR ''.'' # r1 \<Rightarrow>
               (case digitpart r1 of
                  Some (fp, r2) \<Rightarrow>
                    (case parse_exponent r2 of
                       Some e \<Rightarrow> Some (of_int (digits_value (ip @ fp)) * pow10 (e - int (length fp)))
                     | None \<Rightarrow> None)
                | None \<Rightarrow>
                    (case parse_exponent r1 of
                       Some e \<Rightarrow> Some (of_int (digits_value ip) * pow10 e)
                     | None \<Rightarrow> None))
           | _ \<Rightarrow>
               (case parse_exponent r of
                  Some e \<Rightarrow> Some (of_int (digits_value ip) * pow10 e)
                | None \<Rightarrow> None))
      | None \<Rightarrow>
          (case s of
             CHR ''.'' # r1 \<Rightarrow>
               (case digitpart r1 of
                  Some (fp, r2) \<Rightarrow>
                    (case parse_exponent r2 of
                       Some e \<Rightarrow> Some (of_int (digits_value fp) * pow10 (e - int (length fp)))
                     | None \<Rightarrow> None)
                | None \<Rightarrow> None)
           | _ \<Rightarrow> None))"

definition py_float :: "string \<Rightarrow> pyfloat option" where
  "py_float s =
     (case take_sign (py_strip s) of
        (sg, body) \<Rightarrow>
          if py_lower body = ''inf'' \<or> py_lower body = ''infinity''
          then Some (if sg < 0 then FNegInf else FPosInf)
          else if py_lower body = ''nan'' then Some FNaN
          else (case parse_decimal body of
                  Some q \<Rightarrow> Some (float_of_rat (of_int sg * q))
                | None \<Rightarrow> None))"

subsection \<open>Values and rows\<close>

text \<open>
  A value of a row: \<open>None\<close>, a \<open>bool\<close>, an \<open>int\<close>, a \<open>float\<close>, a \<open>str\<close>, a \<open>datetime\<close>
  (carrying its rendering) or another object, a list or a dict (carrying its rendering):
  such an object is not a number and is not hashable. A row is a \<open>dict\<close> from column
  names to values, kept as an association list in insertion order with distinct keys.
\<close>

datatype pyval = VNone | VBool bool | VInt int | VFloat pyfloat | VStr string
  | VDatetime string | VOther string

text \<open>
  \<open>str(value)\<close>. The rendering of a float is library code and comes as the parameter
  \<open>frepr\<close>.
\<close>

fun py_str :: "(pyfloat \<Rightarrow> string) \<Rightarrow> pyval \<Rightarrow> string" where
  "py_str frepr VNone = ''None''"
| "py_str frepr (VBool b) = (if b then ''True'' else ''False'')"
| "py_str frepr (VInt i) = str_of_int i"
| "py_str frepr (VFloat f) = frepr f"
| "py_str frepr (VStr s) = s"
| "py_str frepr (VDatetime d) = d"
| "py_str frepr (VOther x) = x"

type_synonym row = "(string \<times> pyval) list"

definition row_has :: "row \<Rightarrow> string \<Rightarrow> bool" where
  "row_has r col \<longleftrightarrow> map_of r col \<noteq> None"

text \<open>\<open>row.get(col)\<close>: the value, or \<open>None\<close> for a missing key.\<close>

definition row_get :: "row \<Rightarrow> string \<Rightarrow> pyval" where
  "row_get r col = (case map_of r col of None \<Rightarrow> VNone | Some v \<Rightarrow> v)"

text \<open>\<open>row[col] = v\<close>: an existing key keeps its position, a new key is appended.\<close>

fun row_set :: "row \<Rightarrow> string \<Rightarrow> pyval \<Rightarrow> row" where
  "row_set [] col v = [(col, v)]"
| "row_set ((k, w) # r) col v = (if k = col then (k, v) # r else (k, w) # row_set r col v)"

section \<open>Privacy masks\<close>

text \<open>
  privacy/masks.py. \<open>mask_params\<close> is a \<open>dict\<close> from parameter names to values of any
  kind, as the configuration file gives them. Three things that the masks call are library
  code and come as the fields of a record:
  \<^item> \<open>lib_hexdigest algorithm text\<close> is \<open>text.encode("utf-8")\<close> followed by the hexadecimal
    digest of \<open>hashlib\<close>; the encoding raises \<open>UnicodeEncodeError\<close> on text with a lone
    surrogate;
  \<^item> \<open>lib_bucket_label num_value bucket_size\<close> is the arithmetic of \<open>bucket_mask\<close> on floats
    and integers, \<open>int((num_value // bucket_size) * bucket_size)\<close> and
    \<open>bucket_start + bucket_size - 1\<close>, and the rendering of the two bounds: it gives the
    label, or the exception that the arithmetic raises;
  \<^item> \<open>lib_frepr\<close> is \<open>str\<close> of a float.
\<close>

record pylib =
  lib_hexdigest :: "string \<Rightarrow> string \<Rightarrow> error + string"
  lib_bucket_label :: "pyfloat \<Rightarrow> pyval \<Rightarrow> error + string"
  lib_frepr :: "pyfloat \<Rightarrow> string"

type_synonym mask_params = "(string \<times> pyval) list"

text \<open>\<open>mask_params.get(key, default)\<close>.\<close>

definition params_get :: "mask_params \<Rightarrow> string \<Rightarrow> pyval \<Rightarrow> pyval" where
  "params_get params key dflt = (case map_of params key of None \<Rightarrow> dflt | Some v \<Rightarrow> v)"

definition hash_mask :: "pylib \<Rightarrow> pyval \<Rightarrow> pyval \<Rightarrow> error + string" where
  "hash_mask L v alg =
     (if v = VNone then Inr []
      else let value_str = py_str (lib_frepr L) v in
        if alg = VStr ''sha256'' then lib_hexdigest L ''sha256'' value_str
        else if alg = VStr ''sha1'' then lib_hexdigest L ''sha1'' value_str
        else if alg = VStr ''md5'' then lib_hexdigest L ''md5'' value_str
        else Inl ValueError)"

definition redact_mask :: "pyval \<Rightarrow> pyval \<Rightarrow> pyval" where
  "redact_mask v tok = (if v = VNone then tok else tok)"

text \<open>
  \<open>n <= m\<close> for an integer \<open>n\<close> and any value \<open>m\<close>: a \<open>TypeError\<close> unless \<open>m\<close> is a
  number.
\<close>

definition float_le :: "pyfloat \<Rightarrow> pyfloat \<Rightarrow> bool" where
  "float_le x y \<longleftrightarrow> x \<noteq> FNaN \<and> y \<noteq> FNaN \<and> \<not> float_lt y x"

fun int_le_value :: "int \<Rightarrow> pyval \<Rightarrow> error + bool" where
  "int_le_value n (VBool b) = Inr (n \<le> (if b then 1 else 0))"
| "int_le_value n (VInt i) = Inr (n \<le> i)"
| "int_le_value n (VFloat f) = Inr (float_le (FFin (of_int n)) f)"
| "int_le_value n m = Inl TypeError"

text \<open>
  \<open>s[:n]\<close>: a negative \<open>n\<close> counts from the end, \<open>None\<close> takes the whole text, and an
  \<open>n\<close> that is not an integer raises \<open>TypeError\<close>.
\<close>

definition slice_to :: "string \<Rightarrow> int \<Rightarrow> string" where
  "slice_to s n = (if 0 \<le> n then take (nat n) s else take (nat (int (length s) + n)) s)"

fun slice_to_value :: "string \<Rightarrow> pyval \<Rightarrow> error + string" where
  "slice_to_value s (VBool b) = Inr (slice_to s (if b then 1 else 0))"
| "slice_to_value s (VInt i) = Inr (slice_to s i)"
| "slice_to_value s VNone = Inr s"
| "slice_to_value s m = Inl TypeError"

definition truncate_mask :: "pylib \<Rightarrow> pyval \<Rightarrow> pyval \<Rightarrow> error + string" where
  "truncate_mask L v max_len =
     (if v = VNone then Inr []
      else let value_str = py_str (lib_frepr L) v in
        case int_le_value (int (length value_str)) max_len of
          Inl e \<Rightarrow> Inl e
        | Inr short \<Rightarrow>
            if short then Inr value_str
            else (case slice_to_value value_str max_len of
                    Inl e \<Rightarrow> Inl e
                  | Inr head \<Rightarrow> Inr (head @ ''...'')))"

text \<open>
  \<open>float(value)\<close> on any value: a \<open>ValueError\<close> for text that is not a number, a
  \<open>TypeError\<close> for an object that is not a number, an \<open>OverflowError\<close> for a huge integer.
\<close>

fun py_float_of :: "pyval \<Rightarrow> error + pyfloat" where
  "py_float_of VNone = Inl TypeError"
| "py_float_of (VBool b) = Inr (FFin (if b then 1 else 0))"
| "py_float_of (VInt i) = float_of_int i"
| "py_float_of (VFloat f) = Inr f"
| "py_float_of (VStr s) = (case py_float s of None \<Rightarrow> Inl ValueError | Some f \<Rightarrow> Inr f)"
| "py_float_of (VDatetime d) = Inl TypeError"
| "py_float_of (VOther x) = Inl TypeError"

text \<open>
  \<open>except (ValueError, TypeError)\<close>: \<open>UnicodeEncodeError\<close> is a subclass of
  \<open>ValueError\<close>.
\<close>

definition caught_by_bucket_mask :: "error \<Rightarrow> bool" where
  "caught_by_bucket_mask e \<longleftrightarrow> e = ValueError \<or> e = TypeError \<or> e = UnicodeEncodeError"

text \<open>
  \<open>bucket_mask\<close>: both \<open>float(value)\<close> and the arithmetic are inside the \<open>try\<close> block; an
  exception that the \<open>except\<close> clause does not name goes to the caller.
\<close>

definition bucket_mask :: "pylib \<Rightarrow> pyval \<Rightarrow> pyval \<Rightarrow> error + string" where
  "bucket_mask L v bsize =
     (if v = VNone then Inr []
      else (case py_float_of v of
              Inl e \<Rightarrow> if caught_by_bucket_mask e then Inr [] else Inl e
            | Inr num_value \<Rightarrow>
                (case lib_bucket_label L num_value bsize of
                   Inl e \<Rightarrow> if caught_by_bucket_mask e then Inr [] else Inl e
                 | Inr label \<Rightarrow> Inr label)))"

definition apply_mask :: "pylib \<Rightarrow> pyval \<Rightarrow> string \<Rightarrow> mask_params \<Rightarrow> error + pyval" where
  "apply_mask L v mask_kind params =
     (if mask_kind = ''hash''
      then map_sum id VStr (hash_mask L v (params_get params ''algorithm'' (VStr ''sha256'')))
      else if mask_kind = ''redact''
      then Inr (redact_mask v (params_get params ''token'' (VStr ''[REDACTED]'')))
      else if mask_kind = ''truncate''
      then map_sum id VStr (truncate_mask L v (params_get params ''max_length'' (VInt 4)))
      else if mask_kind = ''bucket''
      then map_sum id VStr (bucket_mask L v (params_get params ''bucket_size'' (VInt 10)))
      else Inl ValueError)"

section \<open>Configuration\<close>

text \<open>
  config.py. \<open>PrivacyRule\<close> is a plain dataclass: its constructor stores the three fields
  and checks nothing. The fields are taken at their declared types: \<open>column\<close> and
  \<open>mask_type\<close> are text, and \<open>mask_params\<close> is a dict from text to values of any kind.
  \<open>SamplerConfig\<close> checks its target and its mode in \<open>__post_init__\<close>.
\<close>

record PrivacyRule =
  column :: string
  mask_type :: string
  rule_params :: mask_params

definition PrivacyRule_init :: "string \<Rightarrow> string \<Rightarrow> mask_params \<Rightarrow> error + PrivacyRule" where
  "PrivacyRule_init col kind params = Inr \<lparr> column = col, mask_type = kind, rule_params = params \<rparr>"

record SamplerConfig =
  sampling_mode :: string
  target_rows :: int
  key_columns :: "string list option"
  privacy_rules :: "PrivacyRule list option"
  seed :: "int option"

definition SamplerConfig_init ::
  "string \<Rightarrow> int \<Rightarrow> string list option \<Rightarrow> PrivacyRule list option \<Rightarrow> int option \<Rightarrow> error + SamplerConfig" where
  "SamplerConfig_init mode target keys rules sd =
     (if target < 1 then Inl ValueError
      else if mode \<notin> set [''random'', ''stratified'', ''time_aware'', ''outlier_aware'', ''composite'']
      then Inl ValueError
      else Inr \<lparr> sampling_mode = mode, target_rows = target, key_columns = keys,
                 privacy_rules = rules, seed = sd \<rparr>)"

section \<open>The random number generator\<close>

text \<open>
  Every sampler owns one \<open>random.Random\<close> object, created from the configured seed. The
  generator is library code: it is modelled by its state \<open>'g\<close> and by the three methods
  the samplers call, each returning its result and the next state.
  \<^item> \<open>randint g a b\<close> is \<open>rng.randint(a, b)\<close>;
  \<^item> \<open>sample_idx g n k\<close> gives the positions chosen by \<open>rng.sample(population, k)\<close> in a
    population of \<open>n\<close> elements;
  \<^item> \<open>shuffle_perm g n\<close> gives the order in which \<open>rng.shuffle(xs)\<close> leaves a list of
    \<open>n\<close> elements: position \<open>i\<close> of the shuffled list holds the element that stood at
    position \<open>shuffle_perm g n ! i\<close>.
\<close>

record 'g rng =
  randint :: "'g \<Rightarrow> int \<Rightarrow> int \<Rightarrow> int \<times> 'g"
  sample_idx :: "'g \<Rightarrow> nat \<Rightarrow> nat \<Rightarrow> nat list \<times> 'g"
  shuffle_perm :: "'g \<Rightarrow> nat \<Rightarrow> nat list \<times> 'g"

text \<open>The documented contract of \<open>randint\<close>: the draw lies in the closed interval.\<close>

definition randint_ok :: "'g rng \<Rightarrow> bool" where
  "randint_ok R \<longleftrightarrow> (\<forall>g a b. a \<le> b \<longrightarrow> a \<le> fst (randint R g a b) \<and> fst (randint R g a b) \<le> b)"

text \<open>
  The contracts of \<open>sample\<close> and \<open>shuffle\<close>: \<open>sample\<close> returns \<open>k\<close> positions of the
  population, and \<open>shuffle\<close> leaves a permutation of the list.
\<close>

definition sample_ok :: "'g rng \<Rightarrow> bool" where
  "sample_ok R \<longleftrightarrow>
     (\<forall>g n k. k \<le> n \<longrightarrow> length (fst (sample_idx R g n k)) = k \<and> (\<forall>i \<in> set (fst (sample_idx R g n k)). i < n))"

definition shuffle_ok :: "'g rng \<Rightarrow> bool" where
  "shuffle_ok R \<longleftrightarrow>
     (\<forall>g n. length (fst (shuffle_perm R g n)) = n \<and> set (fst (shuffle_perm R g n)) = {..<n})"

section \<open>Random sampler\<close>

text \<open>
  \<open>RandomSampler.sample\<close> (sampling/random\_sampler.py). The loop state is the reservoir,
  the counter \<open>count\<close> and the generator. \<open>random_loop\<close> is the \<open>for row in rows\<close> loop,
  \<open>random_run\<close> runs it from the initial state, \<open>random_sample\<close> yields the reservoir.
\<close>

fun random_loop ::
  "'g rng \<Rightarrow> int \<Rightarrow> 'r list \<Rightarrow> 'r list \<times> int \<times> 'g \<Rightarrow> error + ('r list \<times> int \<times> 'g)" where
  "random_loop R target_size [] st = Inr st"
| "random_loop R target_size (row # rows) (reservoir, count, g) =
     (if int (length reservoir) < target_size
      then random_loop R target_size rows (reservoir @ [row], count + 1, g)
      else (case randint R g 0 count of
              (index, g') \<Rightarrow>
                if index < target_size
                then (case list_setitem reservoir index row of
                        Inl e \<Rightarrow> Inl e
                      | Inr reservoir' \<Rightarrow> random_loop R target_size rows (reservoir', count + 1, g'))
                else random_loop R target_size rows (reservoir, count + 1, g')))"

definition random_run ::
  "'g rng \<Rightarrow> int \<Rightarrow> 'g \<Rightarrow> 'r list \<Rightarrow> error + ('r list \<times> int \<times> 'g)" where
  "random_run R target_size g rows = random_loop R target_size rows ([], 0, g)"

definition random_sample :: "'g rng \<Rightarrow> int \<Rightarrow> 'g \<Rightarrow> 'r list \<Rightarrow> error + 'r list" where
  "random_sample R target_size g rows =
     (case random_run R target_size g rows of Inl e \<Rightarrow> Inl e | Inr (reservoir, count, g') \<Rightarrow> Inr reservoir)"

section \<open>Time-aware sampler\<close>

text \<open>
  \<open>TimeSampler\<close> (sampling/time\_sampler.py). \<open>time_column\<close> is the first key column, if
  any. The built-in \<open>hash\<close> of a \<open>str\<close> is salted with a value that the interpreter
  draws when the process starts, so it is a parameter of a run: \<open>str_hash\<close>.
\<close>

definition time_column_of :: "SamplerConfig \<Rightarrow> string option" where
  "time_column_of config =
     (case key_columns config of
        None \<Rightarrow> None
      | Some [] \<Rightarrow> None
      | Some (c # cs) \<Rightarrow> Some c)"

definition get_timestamp_value ::
  "(string \<Rightarrow> int) \<Rightarrow> string option \<Rightarrow> row \<Rightarrow> nat \<Rightarrow> error + pyfloat" where
  "get_timestamp_value str_hash time_column r row_index =
     (case time_column of
        None \<Rightarrow> Inr (FFin (of_nat row_index))
      | Some col \<Rightarrow>
          if col \<noteq> [] \<and> row_has r col
          then (case row_get r col of
                  VBool b \<Rightarrow> Inr (FFin (if b then 1 else 0))
                | VInt i \<Rightarrow> float_of_int i
                | VFloat f \<Rightarrow> Inr f
                | VStr s \<Rightarrow>
                    (case py_float s of
                       Some f \<Rightarrow> Inr f
                     | None \<Rightarrow> Inr (FFin (of_int (str_hash s))))
                | _ \<Rightarrow> Inr (FFin (of_nat row_index)))
          else Inr (FFin (of_nat row_index)))"

text \<open>Phase 1: the rows paired with their timestamps, in arrival order.\<close>

fun stamp_rows ::
  "(string \<Rightarrow> int) \<Rightarrow> string option \<Rightarrow> row list \<Rightarrow> nat \<Rightarrow> error + (pyfloat \<times> row) list" where
  "stamp_rows str_hash time_column [] row_index = Inr []"
| "stamp_rows str_hash time_column (r # rows) row_index =
     (case get_timestamp_value str_hash time_column r row_index of
        Inl e \<Rightarrow> Inl e
      | Inr timestamp \<Rightarrow>
          (case stamp_rows str_hash time_column rows (row_index + 1) of
             Inl e \<Rightarrow> Inl e
           | Inr rest \<Rightarrow> Inr ((timestamp, r) # rest)))"

text \<open>
  \<open>all_rows.sort(key=lambda x: x[0])\<close>: a stable sort that compares the keys with \<open><\<close>.
  It is modelled by stable insertion; on keys without a not-a-number every stable sort
  gives this order. With a not-a-number among the keys the order that \<open>list.sort\<close>
  leaves depends on its run and merge strategy and is not the one given here; nothing
  below is stated for such keys.
\<close>

fun insert_by_key :: "pyfloat \<times> 'a \<Rightarrow> (pyfloat \<times> 'a) list \<Rightarrow> (pyfloat \<times> 'a) list" where
  "insert_by_key x [] = [x]"
| "insert_by_key x (y # ys) = (if float_lt (fst x) (fst y) then x # y # ys else y # insert_by_key x ys)"

definition sort_by_key :: "(pyfloat \<times> 'a) list \<Rightarrow> (pyfloat \<times> 'a) list" where
  "sort_by_key xs = foldl (\<lambda>acc x. insert_by_key x acc) [] xs"

text \<open>
  \<open>rng.sample(population, k)\<close> raises \<open>ValueError\<close> unless \<open>0 \<le> k \<le> len(population)\<close>.
\<close>

definition rng_sample :: "'g rng \<Rightarrow> 'g \<Rightarrow> 'a list \<Rightarrow> int \<Rightarrow> error + ('a list \<times> 'g)" where
  "rng_sample R g population k =
     (if k < 0 \<or> int (length population) < k then Inl ValueError
      else (case sample_idx R g (length population) (nat k) of
              (idxs, g') \<Rightarrow> Inr (map (\<lambda>i. population ! i) idxs, g')))"

definition rng_shuffle :: "'g rng \<Rightarrow> 'g \<Rightarrow> 'a list \<Rightarrow> 'a list \<times> 'g" where
  "rng_shuffle R g xs =
     (case shuffle_perm R g (length xs) of (perm, g') \<Rightarrow> (map (\<lambda>i. xs ! i) perm, g'))"

text \<open>
  One of the three segment blocks of Phase 3: it samples \<open>count\<close> rows from a non-empty
  segment and appends them to \<open>sampled\<close>.
\<close>

definition sample_segment ::
  "'g rng \<Rightarrow> 'g \<Rightarrow> (pyfloat \<times> row) list \<Rightarrow> int \<Rightarrow> row list \<Rightarrow> error + (row list \<times> 'g)" where
  "sample_segment R g segment_rows count0 sampled =
     (let count = min count0 (int (length segment_rows)) in
      case rng_sample R g segment_rows count of
        Inl e \<Rightarrow> Inl e
      | Inr (sampled_rows, g') \<Rightarrow> Inr (sampled @ map snd sampled_rows, g'))"

definition time_sample ::
  "'g rng \<Rightarrow> (string \<Rightarrow> int) \<Rightarrow> SamplerConfig \<Rightarrow> 'g \<Rightarrow> row list \<Rightarrow> error + row list" where
  "time_sample R str_hash config g rows =
     (let target_size = target_rows config in
      case stamp_rows str_hash (time_column_of config) rows 0 of
        Inl e \<Rightarrow> Inl e
      | Inr stamped \<Rightarrow>
          if stamped = [] then Inr []
          else let all_rows = sort_by_key stamped;
                   total_rows = length all_rows in
            if int total_rows \<le> target_size then Inr (map snd all_rows)
            else let segment_size = total_rows div 3;
                     early_rows = take segment_size all_rows;
                     middle_rows = take segment_size (drop segment_size all_rows);
                     late_rows = drop (segment_size * 2) all_rows;
                     samples_per_segment = target_size div 3;
                     remaining0 = target_size - samples_per_segment * 3
                 in
              case (if early_rows \<noteq> []
                    then (case sample_segment R g early_rows
                                 (samples_per_segment + (if 0 < remaining0 then 1 else 0)) [] of
                            Inl e \<Rightarrow> Inl e
                          | Inr (sampled, g1) \<Rightarrow> Inr (sampled, g1, remaining0 - (if 0 < remaining0 then 1 else 0)))
                    else Inr ([], g, remaining0)) of
                Inl e \<Rightarrow> Inl e
              | Inr (sampled1, g1, remaining1) \<Rightarrow>
                  (case (if middle_rows \<noteq> []
                         then (case sample_segment R g1 middle_rows
                                      (samples_per_segment + (if 0 < remaining1 then 1 else 0)) sampled1 of
                                 Inl e \<Rightarrow> Inl e
                               | Inr (sampled, g2) \<Rightarrow> Inr (sampled, g2, remaining1 - (if 0 < remaining1 then 1 else 0)))
                         else Inr (sampled1, g1, remaining1)) of
                     Inl e \<Rightarrow> Inl e
                   | Inr (sampled2, g2, remaining2) \<Rightarrow>
                       (case (if late_rows \<noteq> []
                              then sample_segment R g2 late_rows (samples_per_segment + remaining2) sampled2
                              else Inr (sampled2, g2)) of
                          Inl e \<Rightarrow> Inl e
                        | Inr (sampled3, g3) \<Rightarrow>
                            (case rng_shuffle R g3 sampled3 of
                               (shuffled, g4) \<Rightarrow> Inr (take (nat target_size) shuffled)))))"

section \<open>Outlier-aware sampler\<close>

text \<open>
  \<open>OutlierSampler\<close> (sampling/outlier\_sampler.py). The sampler compares rows by identity
  (\<open>id(row)\<close>): a row object is referred to by its position in \<open>all_rows\<close>.
\<close>

fun get_numeric_value :: "pyval \<Rightarrow> error + pyfloat option" where
  "get_numeric_value VNone = Inr None"
| "get_numeric_value (VBool b) = Inr (Some (FFin (if b then 1 else 0)))"
| "get_numeric_value (VInt i) = (case float_of_int i of Inl e \<Rightarrow> Inl e | Inr f \<Rightarrow> Inr (Some f))"
| "get_numeric_value (VFloat f) = Inr (Some f)"
| "get_numeric_value (VStr s) = Inr (py_float s)"
| "get_numeric_value (VDatetime d) = Inr None"
| "get_numeric_value (VOther x) = Inr None"

text \<open>The entry of \<open>column_stats\<close> for one column.\<close>

record col_stats =
  smin :: "pyfloat option"
  smax :: "pyfloat option"
  min_row :: "nat option"
  max_row :: "nat option"

definition new_col_stats :: col_stats where
  "new_col_stats = \<lparr> smin = None, smax = None, min_row = None, max_row = None \<rparr>"

text \<open>The two comparisons that follow \<open>stats = column_stats[col]\<close>.\<close>

definition note_value :: "col_stats \<Rightarrow> pyfloat \<Rightarrow> nat \<Rightarrow> col_stats" where
  "note_value stats v row_id =
     (let stats1 = (if smin stats = None \<or> (case smin stats of Some m \<Rightarrow> float_lt v m | None \<Rightarrow> False)
                    then stats\<lparr>smin := Some v, min_row := Some row_id\<rparr> else stats)
      in if smax stats1 = None \<or> (case smax stats1 of Some m \<Rightarrow> float_gt v m | None \<Rightarrow> False)
         then stats1\<lparr>smax := Some v, max_row := Some row_id\<rparr> else stats1)"

text \<open>
  \<open>column_stats\<close> is a \<open>dict\<close> in insertion order: a missing column gets a new entry at
  the end, and the entry of the column is updated in place.
\<close>

fun note_column :: "(string \<times> col_stats) list \<Rightarrow> string \<Rightarrow> pyfloat \<Rightarrow> nat \<Rightarrow> (string \<times> col_stats) list" where
  "note_column [] col v row_id = [(col, note_value new_col_stats v row_id)]"
| "note_column ((k, stats) # d) col v row_id =
     (if k = col then (k, note_value stats v row_id) # d else (k, stats) # note_column d col v row_id)"

text \<open>The inner loop \<open>for col in columns_to_check\<close> for one row.\<close>

fun check_columns ::
  "string list \<Rightarrow> row \<Rightarrow> nat \<Rightarrow> (string \<times> col_stats) list \<Rightarrow> error + (string \<times> col_stats) list" where
  "check_columns [] r row_id column_stats = Inr column_stats"
| "check_columns (col # cols) r row_id column_stats =
     (if \<not> row_has r col then check_columns cols r row_id column_stats
      else (case get_numeric_value (row_get r col) of
              Inl e \<Rightarrow> Inl e
            | Inr None \<Rightarrow> check_columns cols r row_id column_stats
            | Inr (Some v) \<Rightarrow> check_columns cols r row_id (note_column column_stats col v row_id)))"

text \<open>Phase 1: the loop over the rows; \<open>row_id\<close> is the position of the row in \<open>all_rows\<close>.\<close>

fun collect_column_stats ::
  "string list \<Rightarrow> row list \<Rightarrow> nat \<Rightarrow> (string \<times> col_stats) list \<Rightarrow> error + (string \<times> col_stats) list" where
  "collect_column_stats cols [] row_id column_stats = Inr column_stats"
| "collect_column_stats cols (r # rows) row_id column_stats =
     (case check_columns cols r row_id column_stats of
        Inl e \<Rightarrow> Inl e
      | Inr column_stats' \<Rightarrow> collect_column_stats cols rows (row_id + 1) column_stats')"

text \<open>Phase 2: the rows that carry a minimum or a maximum, each once, in dict order.\<close>

definition add_outlier :: "nat option \<Rightarrow> nat list \<Rightarrow> nat list" where
  "add_outlier candidate outlier_rows =
     (case candidate of
        None \<Rightarrow> outlier_rows
      | Some row_id \<Rightarrow> if row_id \<notin> set outlier_rows then outlier_rows @ [row_id] else outlier_rows)"

fun collect_outliers :: "(string \<times> col_stats) list \<Rightarrow> nat list \<Rightarrow> nat list" where
  "collect_outliers [] outlier_rows = outlier_rows"
| "collect_outliers ((col, stats) # d) outlier_rows =
     collect_outliers d (add_outlier (max_row stats) (add_outlier (min_row stats) outlier_rows))"

definition columns_to_check_of :: "SamplerConfig \<Rightarrow> string list \<Rightarrow> string list" where
  "columns_to_check_of config columns =
     (case key_columns config of
        None \<Rightarrow> columns
      | Some ks \<Rightarrow> if ks = [] then columns else ks)"

text \<open>
  Phase 3: the rest of the target is filled by sampling from the rows that are not
  outliers; \<open>total_rows\<close> is the number of rows in \<open>all_rows\<close>.
\<close>

definition sample_remaining ::
  "'g rng \<Rightarrow> 'g \<Rightarrow> int \<Rightarrow> nat \<Rightarrow> nat list \<Rightarrow> error + (nat list \<times> 'g)" where
  "sample_remaining R g target_size total_rows outlier_rows =
     (let remaining_target = target_size - int (length outlier_rows) in
      if 0 < remaining_target
      then let non_outlier_rows = filter (\<lambda>row_id. row_id \<notin> set outlier_rows) [0..<total_rows] in
        if non_outlier_rows \<noteq> []
        then (case rng_sample R g non_outlier_rows
                     (min remaining_target (int (length non_outlier_rows))) of
                Inl e \<Rightarrow> Inl e
              | Inr (sampled_rows, g1) \<Rightarrow> Inr (outlier_rows @ sampled_rows, g1))
        else Inr (outlier_rows, g)
      else Inr (outlier_rows, g))"

text \<open>The sampler, returning the positions in \<open>all_rows\<close> of the rows it yields.\<close>

definition outlier_sample_ids ::
  "'g rng \<Rightarrow> SamplerConfig \<Rightarrow> 'g \<Rightarrow> string list \<Rightarrow> row list \<Rightarrow> error + nat list" where
  "outlier_sample_ids R config g columns all_rows =
     (let target_size = target_rows config in
      case collect_column_stats (columns_to_check_of config columns) all_rows 0 [] of
        Inl e \<Rightarrow> Inl e
      | Inr column_stats \<Rightarrow>
          if all_rows = [] then Inr []
          else if int (length all_rows) \<le> target_size then Inr [0..<length all_rows]
          else (case sample_remaining R g target_size (length all_rows) (collect_outliers column_stats []) of
                  Inl e \<Rightarrow> Inl e
                | Inr (chosen, g1) \<Rightarrow>
                    (case rng_shuffle R g1 chosen of
                       (shuffled, g2) \<Rightarrow> Inr (take (nat target_size) shuffled))))"

definition outlier_sample ::
  "'g rng \<Rightarrow> SamplerConfig \<Rightarrow> 'g \<Rightarrow> string list \<Rightarrow> row list \<Rightarrow> error + row list" where
  "outlier_sample R config g columns all_rows =
     (case outlier_sample_ids R config g columns all_rows of
        Inl e \<Rightarrow> Inl e
      | Inr ids \<Rightarrow> Inr (map (\<lambda>row_id. all_rows ! row_id) ids))"

text \<open>
  The number that a row carries in a column for the sampler: the value that
  \<open>_get_numeric_value\<close> gives for it, if the row has the column and the value is numeric.
\<close>

definition cell_value :: "row \<Rightarrow> string \<Rightarrow> pyfloat option" where
  "cell_value r c =
     (if row_has r c
      then (case get_numeric_value (row_get r c) of Inr (Some v) \<Rightarrow> Some v | _ \<Rightarrow> None)
      else None)"

text \<open>
  What the statistics of a column record after the pairs \<open>S\<close> of row and column have been
  looked at: \<open>min_row\<close> is a row whose number no looked-at number of the column is below,
  \<open>max_row\<close> is a row whose number no looked-at number of the column is above, and every
  column with a looked-at number has an entry.
\<close>

definition good_min :: "row list \<Rightarrow> (nat \<times> string) set \<Rightarrow> string \<Rightarrow> col_stats \<Rightarrow> bool" where
  "good_min rows S c st \<longleftrightarrow>
     (\<exists>i m. (i, c) \<in> S \<and> min_row st = Some i \<and> smin st = Some m \<and> cell_value (rows ! i) c = Some m
        \<and> (\<forall>j w. (j, c) \<in> S \<and> cell_value (rows ! j) c = Some w \<longrightarrow> \<not> float_lt w m))"

definition good_max :: "row list \<Rightarrow> (nat \<times> string) set \<Rightarrow> string \<Rightarrow> col_stats \<Rightarrow> bool" where
  "good_max rows S c st \<longleftrightarrow>
     (\<exists>i m. (i, c) \<in> S \<and> max_row st = Some i \<and> smax st = Some m \<and> cell_value (rows ! i) c = Some m
        \<and> (\<forall>j w. (j, c) \<in> S \<and> cell_value (rows ! j) c = Some w \<longrightarrow> \<not> float_lt m w))"

definition stats_inv :: "row list \<Rightarrow> (nat \<times> string) set \<Rightarrow> (string \<times> col_stats) list \<Rightarrow> bool" where
  "stats_inv rows S d \<longleftrightarrow>
     distinct (map fst d)
     \<and> (\<forall>c st. (c, st) \<in> set d \<longrightarrow> good_min rows S c st \<and> good_max rows S c st)
     \<and> (\<forall>j c. (j, c) \<in> S \<and> cell_value (rows ! j) c \<noteq> None \<longrightarrow> c \<in> fst ` set d)"

section \<open>Composite sampler\<close>

text \<open>
  \<open>CompositeSampler.sample\<close> (sampling/composite\_sampler.py). A sub-sampler is any object
  with a \<open>sample\<close> method: a function from the upstream rows to the rows it yields, or to
  the exception it raises. The loop rebinds \<open>current_rows\<close> to the output of each
  sub-sampler in list order; the final \<open>current_rows\<close> is yielded row by row.
\<close>

fun composite_sample :: "('r list \<Rightarrow> error + 'r list) list \<Rightarrow> 'r list \<Rightarrow> error + 'r list" where
  "composite_sample [] current_rows = Inr current_rows"
| "composite_sample (sampler # samplers) current_rows =
     (case sampler current_rows of
        Inl e \<Rightarrow> Inl e
      | Inr out \<Rightarrow> composite_sample samplers out)"

text \<open>
  The chain that \<open>_get_sampler\<close> (core.py) builds for the mode \<open>composite\<close>: outlier-aware,
  then time-aware, then random. Each sub-sampler gets the same configuration and makes its
  own generator from the same seed, so all three start from the same generator state.
\<close>

definition default_chain ::
  "'g rng \<Rightarrow> (string \<Rightarrow> int) \<Rightarrow> SamplerConfig \<Rightarrow> 'g \<Rightarrow> string list \<Rightarrow> (row list \<Rightarrow> error + row list) list" where
  "default_chain R str_hash config g columns =
     [ outlier_sample R config g columns,
       time_sample R str_hash config g,
       random_sample R (target_rows config) g ]"

section \<open>Type inference\<close>

text \<open>profiling/type\_inference.py.\<close>

datatype TypeGuess = STRING | INTEGER | FLOAT | BOOLEAN | DATETIME | UNKNOWN

text \<open>
  The four \<open>DATETIME_PATTERNS\<close>. Each is a sequence of single-character items, and
  \<open>re.match\<close> anchors a pattern at the start of the text only.
\<close>

datatype pat_item = PDigit | PLit char | POneOf "char list"

fun item_matches :: "pat_item \<Rightarrow> char \<Rightarrow> bool" where
  "item_matches PDigit c = is_digit c"
| "item_matches (PLit l) c = (c = l)"
| "item_matches (POneOf ls) c = (c \<in> set ls)"

fun re_match :: "pat_item list \<Rightarrow> string \<Rightarrow> bool" where
  "re_match [] s = True"
| "re_match (p # ps) [] = False"
| "re_match (p # ps) (c # cs) = (item_matches p c \<and> re_match ps cs)"

definition pat_date_iso :: "pat_item list" where
  "pat_date_iso = [PDigit, PDigit, PDigit, PDigit, PLit CHR ''-'', PDigit, PDigit, PLit CHR ''-'', PDigit, PDigit]"

definition pat_time :: "pat_item list" where
  "pat_time = [PDigit, PDigit, PLit CHR '':'', PDigit, PDigit, PLit CHR '':'', PDigit, PDigit]"

definition DATETIME_PATTERNS :: "pat_item list list" where
  "DATETIME_PATTERNS =
     [ pat_date_iso @ [POneOf ''T ''] @ pat_time,
       pat_date_iso,
       [PDigit, PDigit, PLit CHR ''/'', PDigit, PDigit, PLit CHR ''/'', PDigit, PDigit, PDigit, PDigit],
       [PDigit, PDigit, PLit CHR ''-'', PDigit, PDigit, PLit CHR ''-'', PDigit, PDigit, PDigit, PDigit] ]"

definition infer_type_str :: "string \<Rightarrow> TypeGuess" where
  "infer_type_str v =
     (let value_stripped = py_strip v in
      if value_stripped = [] then STRING
      else if py_lower value_stripped \<in> set [''true'', ''false'', ''yes'', ''no'', ''1'', ''0''] then BOOLEAN
      else if py_int value_stripped \<noteq> None then INTEGER
      else if py_float value_stripped \<noteq> None then FLOAT
      else if list_ex (\<lambda>pattern. re_match pattern value_stripped) DATETIME_PATTERNS then DATETIME
      else STRING)"

fun infer_type :: "pyval \<Rightarrow> TypeGuess" where
  "infer_type VNone = UNKNOWN"
| "infer_type (VBool b) = BOOLEAN"
| "infer_type (VInt i) = INTEGER"
| "infer_type (VFloat f) = FLOAT"
| "infer_type (VDatetime d) = DATETIME"
| "infer_type (VStr s) = infer_type_str s"
| "infer_type (VOther x) = UNKNOWN"

text \<open>
  \<open>type_counts[type_guess] = type_counts.get(type_guess, 0) + 1\<close> on a \<open>dict\<close> in insertion
  order.
\<close>

fun dict_incr :: "(TypeGuess \<times> int) list \<Rightarrow> TypeGuess \<Rightarrow> (TypeGuess \<times> int) list" where
  "dict_incr [] t = [(t, 1)]"
| "dict_incr ((k, n) # d) t = (if k = t then (k, n + 1) # d else (k, n) # dict_incr d t)"

text \<open>The counting loop of \<open>infer_column_type\<close>.\<close>

fun count_types :: "pyval list \<Rightarrow> (TypeGuess \<times> int) list \<Rightarrow> (TypeGuess \<times> int) list" where
  "count_types [] type_counts = type_counts"
| "count_types (v # sample) type_counts =
     (if v \<noteq> VNone then count_types sample (dict_incr type_counts (infer_type v))
      else count_types sample type_counts)"

text \<open>\<open>max(items, key=lambda x: x[1])\<close>: the first item whose count is the largest.\<close>

fun max_by_count :: "(TypeGuess \<times> int) \<Rightarrow> (TypeGuess \<times> int) list \<Rightarrow> (TypeGuess \<times> int)" where
  "max_by_count best [] = best"
| "max_by_count best (x # xs) = (if snd best < snd x then max_by_count x xs else max_by_count best xs)"

definition infer_column_type :: "pyval list \<Rightarrow> nat \<Rightarrow> TypeGuess" where
  "infer_column_type values sample_size =
     (if values = [] then UNKNOWN
      else let sample = (if sample_size < length values then take sample_size values else values);
               type_counts = count_types sample []
           in case type_counts of
                [] \<Rightarrow> UNKNOWN
              | x # xs \<Rightarrow> fst (max_by_count x xs))"

text \<open>\<open>type_counts.get(t, 0)\<close>: the count recorded for a tag.\<close>

definition tag_count :: "(TypeGuess \<times> int) list \<Rightarrow> TypeGuess \<Rightarrow> int" where
  "tag_count d t = (case map_of d t of None \<Rightarrow> 0 | Some n \<Rightarrow> n)"

text \<open>
  The reading of the budget in which null values do not use it up: the inference is run on
  the first 100 non-null values of the column.
\<close>

definition infer_column_type_nonnull_budget :: "pyval list \<Rightarrow> TypeGuess" where
  "infer_column_type_nonnull_budget values =
     infer_column_type (take 100 (filter (\<lambda>v. v \<noteq> VNone) values)) 100"

section \<open>Column statistics\<close>

text \<open>
  profiling/stats.py. \<open>min_value\<close> and \<open>max_value\<close> hold \<open>VNone\<close> until a numeric value
  is seen. \<open>top_values\<close> is a \<open>dict\<close> from values to counts.
\<close>

record ColumnStats =
  column_name :: string
  type_guess :: TypeGuess
  null_count :: int
  total_count :: int
  min_value :: pyval
  max_value :: pyval
  top_values :: "(pyval \<times> int) list"
  unique_count :: int

definition ColumnStats_init :: "string \<Rightarrow> ColumnStats" where
  "ColumnStats_init name =
     \<lparr> column_name = name, type_guess = UNKNOWN, null_count = 0, total_count = 0,
       min_value = VNone, max_value = VNone, top_values = [], unique_count = 0 \<rparr>"

text \<open>\<open>isinstance(value, (int, float))\<close>: \<open>bool\<close> is a subclass of \<open>int\<close>.\<close>

fun is_int_or_float :: "pyval \<Rightarrow> bool" where
  "is_int_or_float (VBool b) = True"
| "is_int_or_float (VInt i) = True"
| "is_int_or_float (VFloat f) = True"
| "is_int_or_float v = False"

text \<open>
  The number a numeric value stands for in a comparison: \<open>True\<close> is 1 and \<open>False\<close> is 0,
  and integers compare with floats by their exact values.
\<close>

fun num_of :: "pyval \<Rightarrow> pyfloat" where
  "num_of (VBool b) = FFin (if b then 1 else 0)"
| "num_of (VInt i) = FFin (of_int i)"
| "num_of (VFloat f) = f"
| "num_of v = FNaN"

text \<open>
  \<open>a < b\<close> and \<open>a > b\<close> for a numeric \<open>a\<close>: a \<open>TypeError\<close> when \<open>b\<close> is not numeric.
\<close>

definition py_num_lt :: "pyval \<Rightarrow> pyval \<Rightarrow> error + bool" where
  "py_num_lt a b = (if is_int_or_float b then Inr (float_lt (num_of a) (num_of b)) else Inl TypeError)"

definition py_num_gt :: "pyval \<Rightarrow> pyval \<Rightarrow> error + bool" where
  "py_num_gt a b = (if is_int_or_float b then Inr (float_gt (num_of a) (num_of b)) else Inl TypeError)"

text \<open>
  \<open>value not in self.top_values\<close> hashes the value: a list or a dict raises \<open>TypeError\<close>.
\<close>

fun is_hashable :: "pyval \<Rightarrow> bool" where
  "is_hashable (VOther x) = False"
| "is_hashable v = True"

text \<open>
  Equality of \<open>dict\<close> keys: numbers are equal when their values are (\<open>True == 1 == 1.0\<close>),
  text is equal to the same text. A not-a-number is equal to no other object: every
  not-a-number that reaches \<open>update\<close> is taken to be an object of its own.
\<close>

fun py_key_eq :: "pyval \<Rightarrow> pyval \<Rightarrow> bool" where
  "py_key_eq VNone b = (b = VNone)"
| "py_key_eq (VStr s) b = (b = VStr s)"
| "py_key_eq (VDatetime d) b = (b = VDatetime d)"
| "py_key_eq (VOther x) b = (b = VOther x)"
| "py_key_eq a b = (is_int_or_float b \<and> num_of a \<noteq> FNaN \<and> num_of a = num_of b)"

fun tv_get :: "(pyval \<times> int) list \<Rightarrow> pyval \<Rightarrow> int option" where
  "tv_get [] v = None"
| "tv_get ((k, n) # d) v = (if py_key_eq k v then Some n else tv_get d v)"

fun tv_set :: "(pyval \<times> int) list \<Rightarrow> pyval \<Rightarrow> int \<Rightarrow> (pyval \<times> int) list" where
  "tv_set [] v n = [(v, n)]"
| "tv_set ((k, m) # d) v n = (if py_key_eq k v then (k, n) # d else (k, m) # tv_set d v n)"

text \<open>The two comparisons of \<open>ColumnStats.update\<close>, each on the running value.\<close>

definition update_min :: "ColumnStats \<Rightarrow> pyval \<Rightarrow> error + ColumnStats" where
  "update_min cs v =
     (if min_value cs = VNone then Inr (cs\<lparr>min_value := v\<rparr>)
      else (case py_num_lt v (min_value cs) of
              Inl e \<Rightarrow> Inl e
            | Inr lt \<Rightarrow> Inr (if lt then cs\<lparr>min_value := v\<rparr> else cs)))"

definition update_max :: "ColumnStats \<Rightarrow> pyval \<Rightarrow> error + ColumnStats" where
  "update_max cs v =
     (if max_value cs = VNone then Inr (cs\<lparr>max_value := v\<rparr>)
      else (case py_num_gt v (max_value cs) of
              Inl e \<Rightarrow> Inl e
            | Inr gt \<Rightarrow> Inr (if gt then cs\<lparr>max_value := v\<rparr> else cs)))"

definition track_unique :: "ColumnStats \<Rightarrow> pyval \<Rightarrow> ColumnStats" where
  "track_unique cs v =
     (let cs1 = (if tv_get (top_values cs) v = None then cs\<lparr>unique_count := unique_count cs + 1\<rparr> else cs)
      in cs1\<lparr>top_values :=
               tv_set (top_values cs1) v ((case tv_get (top_values cs1) v of None \<Rightarrow> 0 | Some n \<Rightarrow> n) + 1)\<rparr>)"

definition update :: "ColumnStats \<Rightarrow> pyval \<Rightarrow> error + ColumnStats" where
  "update cs0 v =
     (let cs = cs0\<lparr>total_count := total_count cs0 + 1\<rparr> in
      if v = VNone then Inr (cs\<lparr>null_count := null_count cs + 1\<rparr>)
      else if is_int_or_float v
      then (case update_min cs v of
              Inl e \<Rightarrow> Inl e
            | Inr cs1 \<Rightarrow>
                (case update_max cs1 v of
                   Inl e \<Rightarrow> Inl e
                 | Inr cs2 \<Rightarrow> Inr (track_unique cs2 v)))
      else if \<not> is_hashable v then Inl TypeError
      else Inr (track_unique cs v))"

text \<open>A column's values fed to \<open>update\<close> one after the other, as \<open>collect_stats\<close> does.\<close>

fun update_all :: "ColumnStats \<Rightarrow> pyval list \<Rightarrow> error + ColumnStats" where
  "update_all cs [] = Inr cs"
| "update_all cs (v # vs) = (case update cs v of Inl e \<Rightarrow> Inl e | Inr cs' \<Rightarrow> update_all cs' vs)"

text \<open>
  \<open>collect_stats\<close>. The two dicts \<open>stats\<close> and \<open>value_samples\<close> have the same keys, the
  columns in the order of their first occurrence; they are kept as one association list
  from the column to its statistics and its sampled values.
\<close>

fun dict_keys_of :: "string list \<Rightarrow> string list" where
  "dict_keys_of [] = []"
| "dict_keys_of (c # cs) = c # filter (\<lambda>k. k \<noteq> c) (dict_keys_of cs)"

type_synonym col_state = "string \<times> ColumnStats \<times> pyval list"

definition init_col_states :: "string list \<Rightarrow> col_state list" where
  "init_col_states columns = map (\<lambda>col. (col, ColumnStats_init col, [])) (dict_keys_of columns)"

text \<open>
  \<open>value_samples[col].append(value)\<close> and \<open>stats[col].update(value)\<close> for one column of one
  row.
\<close>

fun feed_col :: "col_state list \<Rightarrow> string \<Rightarrow> pyval \<Rightarrow> error + col_state list" where
  "feed_col [] col v = Inl KeyError"
| "feed_col ((k, cs, vs) # d) col v =
     (if k = col
      then (case update cs v of
              Inl e \<Rightarrow> Inl e
            | Inr cs' \<Rightarrow> Inr ((k, cs', vs @ [v]) # d))
      else (case feed_col d col v of
              Inl e \<Rightarrow> Inl e
            | Inr d' \<Rightarrow> Inr ((k, cs, vs) # d')))"

text \<open>The loop \<open>for col in columns\<close> for one row, and the loop over the rows.\<close>

fun feed_row :: "col_state list \<Rightarrow> string list \<Rightarrow> row \<Rightarrow> error + col_state list" where
  "feed_row d [] r = Inr d"
| "feed_row d (col # cols) r =
     (case feed_col d col (row_get r col) of
        Inl e \<Rightarrow> Inl e
      | Inr d' \<Rightarrow> feed_row d' cols r)"

fun feed_rows :: "col_state list \<Rightarrow> string list \<Rightarrow> row list \<Rightarrow> error + col_state list" where
  "feed_rows d columns [] = Inr d"
| "feed_rows d columns (r # rows) =
     (case feed_row d columns r of
        Inl e \<Rightarrow> Inl e
      | Inr d' \<Rightarrow> feed_rows d' columns rows)"

text \<open>
  \<open>if sample_size and row_count >= sample_size: break\<close>: the rows that the loop gets to.
\<close>

definition rows_within :: "int option \<Rightarrow> row list \<Rightarrow> row list" where
  "rows_within sample_size rows =
     (case sample_size of
        None \<Rightarrow> rows
      | Some n \<Rightarrow> if n = 0 then rows else take (nat n) rows)"

text \<open>
  \<open>Counter(d).most_common(n)\<close>: the \<open>n\<close> entries with the highest counts, highest first,
  entries of equal count in the order of the dict.
\<close>

fun insert_by_count :: "pyval \<times> int \<Rightarrow> (pyval \<times> int) list \<Rightarrow> (pyval \<times> int) list" where
  "insert_by_count x [] = [x]"
| "insert_by_count x (y # ys) = (if snd y < snd x then x # y # ys else y # insert_by_count x ys)"

definition most_common :: "int \<Rightarrow> (pyval \<times> int) list \<Rightarrow> (pyval \<times> int) list" where
  "most_common n d = take (nat n) (foldl (\<lambda>acc x. insert_by_count x acc) [] d)"

text \<open>The two passes after the loop: the inferred type, and the trimming of \<open>top_values\<close>.\<close>

definition finish_col :: "int \<Rightarrow> col_state \<Rightarrow> string \<times> ColumnStats" where
  "finish_col max_top_values st =
     (case st of
        (col, cs, vs) \<Rightarrow>
          (let cs1 = (if vs \<noteq> [] then cs\<lparr>type_guess := infer_column_type vs 100\<rparr> else cs);
               cs2 = (if max_top_values < int (length (top_values cs1))
                      then cs1\<lparr>top_values := most_common max_top_values (top_values cs1)\<rparr>
                      else cs1)
           in (col, cs2)))"

definition collect_stats ::
  "row list \<Rightarrow> string list \<Rightarrow> int \<Rightarrow> int option \<Rightarrow> error + (string \<times> ColumnStats) list" where
  "collect_stats rows columns max_top_values sample_size =
     (case feed_rows (init_col_states columns) columns (rows_within sample_size rows) of
        Inl e \<Rightarrow> Inl e
      | Inr d \<Rightarrow> Inr (map (finish_col max_top_values) d))"

text \<open>
  The statistics that \<open>sample_file\<close> (core.py) hands to \<open>generate_manifest\<close>: it calls
  \<open>collect_stats\<close> with \<open>max_top_values=10\<close> on the rows it wrote, and an exception leaves
  \<open>stats\<close> at \<open>None\<close>.
\<close>

definition stats_for_manifest :: "row list \<Rightarrow> string list \<Rightarrow> (string \<times> ColumnStats) list option" where
  "stats_for_manifest sampled_rows columns =
     (case collect_stats sampled_rows columns 10 None of
        Inl e \<Rightarrow> None
      | Inr stats \<Rightarrow> Some stats)"

text \<open>
  Invariants of the loop of \<open>collect_stats\<close>. The bounds of a column are \<open>None\<close> or
  numbers. For a column in which only booleans were seen, \<open>S\<close> being the set of those seen,
  the bounds are \<open>None\<close> as long as \<open>S\<close> is empty, and afterwards the minimum is \<open>False\<close> if
  \<open>S\<close> has it and the maximum is \<open>True\<close> if \<open>S\<close> has it.
\<close>

definition numeric_bounds :: "ColumnStats \<Rightarrow> bool" where
  "numeric_bounds cs \<longleftrightarrow>
     (min_value cs = VNone \<or> is_int_or_float (min_value cs))
     \<and> (max_value cs = VNone \<or> is_int_or_float (max_value cs))"

definition bool_bounds :: "bool set \<Rightarrow> ColumnStats \<Rightarrow> bool" where
  "bool_bounds S cs \<longleftrightarrow>
     (if S = {} then min_value cs = VNone \<and> max_value cs = VNone
      else min_value cs = VBool (False \<notin> S) \<and> max_value cs = VBool (True \<in> S))"

definition tracks_bool_column :: "string \<Rightarrow> bool set \<Rightarrow> col_state list \<Rightarrow> bool" where
  "tracks_bool_column col S d \<longleftrightarrow>
     (\<forall>k cs vs. map_of d k = Some (cs, vs) \<longrightarrow> numeric_bounds cs)
     \<and> (\<exists>cs vs. map_of d col = Some (cs, vs) \<and> bool_bounds S cs)"

section \<open>Manifest\<close>

text \<open>
  manifest.py. \<open>generate_manifest\<close> builds a dict and writes it with \<open>json.dump\<close>; the model
  gives the dict that is written. A JSON value is \<open>null\<close>, an integer, text, a value of a
  row as it is, a list or an object with its keys in insertion order.
\<close>

datatype json = JNull | JInt int | JStr string | JVal pyval | JList "json list"
  | JObj "(string \<times> json) list"

definition type_guess_value :: "TypeGuess \<Rightarrow> string" where
  "type_guess_value t =
     (case t of STRING \<Rightarrow> ''string'' | INTEGER \<Rightarrow> ''integer'' | FLOAT \<Rightarrow> ''float''
      | BOOLEAN \<Rightarrow> ''boolean'' | DATETIME \<Rightarrow> ''datetime'' | UNKNOWN \<Rightarrow> ''unknown'')"

text \<open>The entry of one column in the \<open>column_stats\<close> block.\<close>

definition manifest_column_entry :: "(pyfloat \<Rightarrow> string) \<Rightarrow> ColumnStats \<Rightarrow> (string \<times> json) list" where
  "manifest_column_entry frepr col_stats =
     [ (''type_guess'', JStr (type_guess_value (type_guess col_stats))),
       (''null_count'', JInt (null_count col_stats)),
       (''total_count'', JInt (total_count col_stats)),
       (''unique_count'', JInt (unique_count col_stats)) ]
     @ (if min_value col_stats \<noteq> VNone then [(''min_value'', JVal (min_value col_stats))] else [])
     @ (if max_value col_stats \<noteq> VNone then [(''max_value'', JVal (max_value col_stats))] else [])
     @ (if top_values col_stats \<noteq> []
        then [(''top_values'',
               JList (map (\<lambda>(k, v). JList [JStr (py_str frepr k), JInt v]) (take 10 (top_values col_stats))))]
        else [])"

text \<open>
  The \<open>column_stats\<close> block: it is built when \<open>stats\<close> is a dict that is not empty, with
  one entry for each column of \<open>stats\<close>.
\<close>

definition manifest_column_stats ::
  "(pyfloat \<Rightarrow> string) \<Rightarrow> (string \<times> ColumnStats) list option \<Rightarrow> (string \<times> json) list option" where
  "manifest_column_stats frepr stats =
     (case stats of
        None \<Rightarrow> None
      | Some d \<Rightarrow> if d = [] then None
                  else Some (map (\<lambda>(col_name, col_stats). (col_name, JObj (manifest_column_entry frepr col_stats))) d))"

definition manifest_privacy_rule :: "PrivacyRule \<Rightarrow> json" where
  "manifest_privacy_rule rule =
     JObj [ (''column'', JStr (column rule)),
            (''mask_type'', JStr (mask_type rule)),
            (''mask_params'', JObj (map (\<lambda>(k, v). (k, JVal v)) (rule_params rule))) ]"

text \<open>
  The manifest. \<open>version\<close> is the package version, \<open>now_iso\<close> the rendering of the current
  time and \<open>abs_path\<close> the function that makes a path absolute.
\<close>

definition generate_manifest ::
  "string \<Rightarrow> string \<Rightarrow> (string \<Rightarrow> string) \<Rightarrow> (pyfloat \<Rightarrow> string) \<Rightarrow>
   string \<Rightarrow> string \<Rightarrow> SamplerConfig \<Rightarrow> string \<Rightarrow> string \<Rightarrow> string list \<Rightarrow> int \<Rightarrow>
   (string \<times> ColumnStats) list option \<Rightarrow> (string \<times> json) list" where
  "generate_manifest version now_iso abs_path frepr
       input_path output_path config input_format output_format columns row_count stats =
     [ (''dnuds_version'', JStr version),
       (''timestamp'', JStr (now_iso @ ''Z'')),
       (''input_path'', JStr (abs_path input_path)),
       (''output_path'', JStr (abs_path output_path)),
       (''input_format'', JStr input_format),
       (''output_format'', JStr output_format),
       (''sampling_mode'', JStr (sampling_mode config)),
       (''target_rows'', JInt (target_rows config)),
       (''actual_rows'', JInt row_count),
       (''key_columns'', JList (map JStr (case key_columns config of None \<Rightarrow> [] | Some ks \<Rightarrow> ks))),
       (''seed'', (case seed config of None \<Rightarrow> JNull | Some sd \<Rightarrow> JInt sd)),
       (''columns'', JList (map JStr columns)),
       (''column_count'', JInt (int (length columns))) ]
     @ (case manifest_column_stats frepr stats of
          None \<Rightarrow> []
        | Some column_stats \<Rightarrow> [(''column_stats'', JObj column_stats)])
     @ (case privacy_rules config of
          None \<Rightarrow> []
        | Some rules \<Rightarrow>
            if rules = [] then []
            else [(''privacy_rules'', JList (map manifest_privacy_rule rules))])"

section \<open>Format detector\<close>

text \<open>formats/format\_detector.py.\<close>

datatype FormatType = CSV | JSONL | LOG | SQL | UNKNOWN_FORMAT

text \<open>
  \<open>Path(file_path).suffix\<close> for a POSIX path. The name is the last component that is
  neither empty nor a single dot; the suffix starts at the last dot of the name, unless
  that dot is the first or the last character of the name.
\<close>

fun split_slash :: "string \<Rightarrow> string \<Rightarrow> string list" where
  "split_slash [] cur = [rev cur]"
| "split_slash (c # cs) cur = (if c = CHR ''/'' then rev cur # split_slash cs [] else split_slash cs (c # cur))"

definition path_name :: "string \<Rightarrow> string" where
  "path_name p =
     (case rev (filter (\<lambda>part. part \<noteq> [] \<and> part \<noteq> ''.'') (split_slash p [])) of
        [] \<Rightarrow> []
      | name # parts \<Rightarrow> name)"

definition path_suffix :: "string \<Rightarrow> string" where
  "path_suffix p =
     (let name = path_name p;
          after = length (takeWhile (\<lambda>c. c \<noteq> CHR ''.'') (rev name))
      in if CHR ''.'' \<in> set name \<and> 0 < after \<and> after + 1 < length name
         then drop (length name - after - 1) name
         else [])"

text \<open>
  \<open>re.search(r"INSERT\s+INTO", s)\<close>: the pattern is tried at every position of the text.
\<close>

definition match_INSERT_INTO :: "string \<Rightarrow> bool" where
  "match_INSERT_INTO s \<longleftrightarrow>
     startswith s ''INSERT'' \<and>
     (case drop 6 s of
        [] \<Rightarrow> False
      | c # cs \<Rightarrow> is_space c \<and> startswith (dropWhile is_space cs) ''INTO'')"

fun re_search :: "(string \<Rightarrow> bool) \<Rightarrow> string \<Rightarrow> bool" where
  "re_search m [] = m []"
| "re_search m (c # cs) = (m (c # cs) \<or> re_search m cs)"

text \<open>
  \<open>json.loads\<close> is library code: \<open>json_loads_ok text\<close> says that it returns on \<open>text\<close>
  rather than raising. An absent or empty \<open>content_hint\<close> skips the content rules.
\<close>

definition detect_format :: "(string \<Rightarrow> bool) \<Rightarrow> string \<Rightarrow> string option \<Rightarrow> FormatType" where
  "detect_format json_loads_ok file_path content_hint =
     (let extension = py_lower (path_suffix file_path) in
      if extension = ''.csv'' then CSV
      else if extension \<in> set [''.jsonl'', ''.ndjson''] then JSONL
      else if extension = ''.log'' then LOG
      else if extension = ''.sql'' then SQL
      else (case content_hint of
              None \<Rightarrow> UNKNOWN_FORMAT
            | Some hint \<Rightarrow>
                if hint = [] then UNKNOWN_FORMAT
                else let content_lower = py_lower hint in
                  if startswith (py_strip hint) ''{'' \<and> endswith (py_strip hint) ''}''
                     \<and> json_loads_ok (py_strip hint) then JSONL
                  else if CHR '','' \<in> set hint \<and> CHR 0x0A \<in> set hint then CSV
                  else if re_search match_INSERT_INTO content_lower then SQL
                  else UNKNOWN_FORMAT))"

text \<open>
  The content rules in the order of the specification: JSON object, then a
  case-insensitive match of \<open>INSERT\s+INTO\<close>, then comma and newline.
\<close>

definition content_rules_spec_order :: "(string \<Rightarrow> bool) \<Rightarrow> string \<Rightarrow> FormatType" where
  "content_rules_spec_order json_loads_ok hint =
     (if startswith (py_strip hint) ''{'' \<and> endswith (py_strip hint) ''}''
         \<and> json_loads_ok (py_strip hint) then JSONL
      else if re_search match_INSERT_INTO (py_upper hint) then SQL
      else if CHR '','' \<in> set hint \<and> CHR 0x0A \<in> set hint then CSV
      else UNKNOWN_FORMAT)"

section \<open>SQL dump reader\<close>

text \<open>
  \<open>SQLReader._parse_value\<close> (formats/sql\_reader.py). \<open>replace2 a b r s\<close> is
  \<open>s.replace(ab, r)\<close> for a two-character pattern.
\<close>

fun replace2 :: "char \<Rightarrow> char \<Rightarrow> char \<Rightarrow> string \<Rightarrow> string" where
  "replace2 a b r [] = []"
| "replace2 a b r [c] = [c]"
| "replace2 a b r (c # d # cs) =
     (if c = a \<and> d = b then r # replace2 a b r cs else c # replace2 a b r (d # cs))"

definition is_quoted :: "string \<Rightarrow> bool" where
  "is_quoted value_str \<longleftrightarrow>
     (startswith value_str [CHR 0x27] \<and> endswith value_str [CHR 0x27])
     \<or> (startswith value_str [CHR 0x22] \<and> endswith value_str [CHR 0x22])"

definition unquote :: "string \<Rightarrow> string" where
  "unquote value_str =
     replace2 (CHR 0x5C) (CHR 0x22) (CHR 0x22)
       (replace2 (CHR 0x5C) (CHR 0x27) (CHR 0x27) (butlast (tl value_str)))"

definition parse_number :: "string \<Rightarrow> pyval option" where
  "parse_number value_str =
     (if CHR ''.'' \<in> set value_str then map_option VFloat (py_float value_str)
      else map_option VInt (py_int value_str))"

definition parse_value :: "string \<Rightarrow> pyval" where
  "parse_value raw =
     (let value_str = py_strip raw in
      if py_upper value_str = ''NULL'' then VNone
      else if is_quoted value_str then VStr (unquote value_str)
      else (case parse_number value_str of
              Some v \<Rightarrow> v
            | None \<Rightarrow>
                if py_upper value_str \<in> set [''TRUE'', ''FALSE'']
                then VBool (py_upper value_str = ''TRUE'')
                else VStr value_str))"

text \<open>
  The decoding in the order of the specification: integer parse, then float parse, then
  boolean, then text.
\<close>

definition parse_value_int_then_float :: "string \<Rightarrow> pyval" where
  "parse_value_int_then_float raw =
     (let value_str = py_strip raw in
      if py_upper value_str = ''NULL'' then VNone
      else if is_quoted value_str then VStr (unquote value_str)
      else (case py_int value_str of
              Some i \<Rightarrow> VInt i
            | None \<Rightarrow>
                (case py_float value_str of
                   Some f \<Rightarrow> VFloat f
                 | None \<Rightarrow>
                     if py_upper value_str \<in> set [''TRUE'', ''FALSE'']
                     then VBool (py_upper value_str = ''TRUE'')
                     else VStr value_str)))"

section \<open>Privacy rules\<close>

text \<open>
  \<open>apply_privacy_rules\<close> (privacy/rules.py) copies the row and then assigns to the copy.
  Rows are objects: the store is a list of rows and a row is referred to by its position
  in the store. \<open>dict_copy\<close> allocates the copy at the end of the store. An exception of
  \<open>apply_mask\<close> ends the loop and goes to the caller.
\<close>

type_synonym store = "row list"

definition dict_copy :: "store \<Rightarrow> nat \<Rightarrow> store \<times> nat" where
  "dict_copy h a = (h @ [h ! a], length h)"

fun mask_loop :: "pylib \<Rightarrow> store \<Rightarrow> nat \<Rightarrow> PrivacyRule list \<Rightarrow> error option \<times> store" where
  "mask_loop L h masked_row [] = (None, h)"
| "mask_loop L h masked_row (rule # rules) =
     (if row_has (h ! masked_row) (column rule)
      then (case apply_mask L (row_get (h ! masked_row) (column rule)) (mask_type rule) (rule_params rule) of
              Inl e \<Rightarrow> (Some e, h)
            | Inr masked_value \<Rightarrow>
                mask_loop L (h[masked_row := row_set (h ! masked_row) (column rule) masked_value])
                  masked_row rules)
      else mask_loop L h masked_row rules)"

definition apply_privacy_rules :: "pylib \<Rightarrow> store \<Rightarrow> nat \<Rightarrow> PrivacyRule list \<Rightarrow> (error + nat) \<times> store" where
  "apply_privacy_rules L h row rules =
     (if rules = [] then (case dict_copy h row of (h1, copy) \<Rightarrow> (Inr copy, h1))
      else (case dict_copy h row of
              (h1, masked_row) \<Rightarrow>
                (case mask_loop L h1 masked_row rules of
                   (Some e, h2) \<Rightarrow> (Inl e, h2)
                 | (None, h2) \<Rightarrow> (Inr masked_row, h2))))"

text \<open>
  The effect of one rule and of a list of rules on a row as a value, in the words of the
  specification: each rule replaces only its named column, missing columns are ignored,
  and the rules apply in the order configured.
\<close>

definition rule_effect :: "pylib \<Rightarrow> row \<Rightarrow> PrivacyRule \<Rightarrow> error + row" where
  "rule_effect L r rule =
     (if row_has r (column rule)
      then (case apply_mask L (row_get r (column rule)) (mask_type rule) (rule_params rule) of
              Inl e \<Rightarrow> Inl e
            | Inr masked_value \<Rightarrow> Inr (row_set r (column rule) masked_value))
      else Inr r)"

fun rules_effect :: "pylib \<Rightarrow> row \<Rightarrow> PrivacyRule list \<Rightarrow> error + row" where
  "rules_effect L r [] = Inr r"
| "rules_effect L r (rule # rules) =
     (case rule_effect L r rule of
        Inl e \<Rightarrow> Inl e
      | Inr r' \<Rightarrow> rules_effect L r' rules)"

section \<open>Example instances\<close>

text \<open>
  A generator used to run the samplers on concrete inputs: \<open>randint\<close> returns the lower
  bound, \<open>sample\<close> picks the first \<open>k\<close> positions, \<open>shuffle\<close> reverses the list.
\<close>

definition low_rng :: "nat rng" where
  "low_rng = \<lparr> randint = (\<lambda>g a b. (a, Suc g)),
               sample_idx = (\<lambda>g n k. ([0..<k], Suc g)),
               shuffle_perm = (\<lambda>g n. (rev [0..<n], Suc g)) \<rparr>"

text \<open>
  Stand-ins for the library functions that the masks take as parameters: a digest that
  shows its input, a bucket label computed on exact numbers for an integer bucket size that
  is not zero, and a constant rendering of floats. \<open>no_params\<close> is the empty dict.
\<close>

definition example_hexdigest :: "string \<Rightarrow> string \<Rightarrow> error + string" where
  "example_hexdigest alg text = Inr (alg @ '':'' @ text)"

definition example_bucket_label :: "pyfloat \<Rightarrow> pyval \<Rightarrow> error + string" where
  "example_bucket_label num_value bsize =
     (case (num_value, bsize) of
        (FFin q, VInt n) \<Rightarrow>
          if n = 0 then Inl ZeroDivisionError
          else Inr (str_of_int (\<lfloor>q / of_int n\<rfloor> * n) @ ''-'' @ str_of_int (\<lfloor>q / of_int n\<rfloor> * n + n - 1))
      | _ \<Rightarrow> Inl OverflowError)"

definition example_frepr :: "pyfloat \<Rightarrow> string" where
  "example_frepr f = ''<float>''"

definition example_lib :: pylib where
  "example_lib = \<lparr> lib_hexdigest = example_hexdigest, lib_bucket_label = example_bucket_label,
                   lib_frepr = example_frepr \<rparr>"

definition no_params :: mask_params where
  "no_params = []"

definition example_rule :: "string \<Rightarrow> string \<Rightarrow> PrivacyRule" where
  "example_rule col kind = \<lparr> column = col, mask_type = kind, rule_params = no_params \<rparr>"

text \<open>
  Stand-ins for the string hash of two interpreter processes, which differ in the salt,
  and two sampler configurations with a seed.
\<close>

definition salted_hash :: "int \<Rightarrow> string \<Rightarrow> int" where
  "salted_hash salt s = salt * foldl (\<lambda>h c. h * 31 + int (ord c)) 7 s"

definition time_config :: SamplerConfig where
  "time_config = \<lparr> sampling_mode = ''time_aware'', target_rows = 5, key_columns = Some [''ts''],
                   privacy_rules = None, seed = Some 42 \<rparr>"

definition outlier_config :: SamplerConfig where
  "outlier_config = \<lparr> sampling_mode = ''outlier_aware'', target_rows = 2, key_columns = Some [''value''],
                      privacy_rules = None, seed = Some 0 \<rparr>"

section \<open>Properties of the random sampler\<close>

lemma list_setitem_in_range:
  "0 \<le> index \<Longrightarrow> index < int (length xs) \<Longrightarrow> list_setitem xs index v = Inr (xs[nat index := v])"
  by (simp add: list_setitem_def)

lemma random_loop_append:
  "random_loop R T (pre @ post) st =
     (case random_loop R T pre st of Inl e \<Rightarrow> Inl e | Inr st' \<Rightarrow> random_loop R T post st')"
proof (induction pre arbitrary: st)
  case Nil
  show ?case by simp
next
  case (Cons row pre)
  obtain reservoir count g where st: "st = (reservoir, count, g)" by (cases st) auto
  show ?case unfolding st
    by (simp add: Cons.IH split: prod.splits sum.splits)
qed

lemma random_loop_inv:
  assumes ok: "randint_ok R"
  shows "0 \<le> count \<Longrightarrow> int (length reservoir) \<le> T \<Longrightarrow>
    \<exists>res' g'. random_loop R T rows (reservoir, count, g) = Inr (res', count + int (length rows), g')
      \<and> length res' = min (nat T) (length reservoir + length rows)
      \<and> set res' \<subseteq> set reservoir \<union> set rows
      \<and> (length reservoir + length rows \<le> nat T \<longrightarrow> res' = reservoir @ rows)"
proof (induction rows arbitrary: reservoir count g)
  case Nil
  then show ?case by auto
next
  case (Cons row rows)
  show ?case
  proof (cases "int (length reservoir) < T")
    case True
    have "0 \<le> count + 1" "int (length (reservoir @ [row])) \<le> T" using Cons.prems True by auto
    from Cons.IH[OF this, of g] obtain res' g' where
      h: "random_loop R T rows (reservoir @ [row], count + 1, g) = Inr (res', count + 1 + int (length rows), g')"
         "length res' = min (nat T) (length (reservoir @ [row]) + length rows)"
         "set res' \<subseteq> set (reservoir @ [row]) \<union> set rows"
         "(length (reservoir @ [row]) + length rows \<le> nat T \<longrightarrow> res' = (reservoir @ [row]) @ rows)"
      by blast
    show ?thesis using True h by (auto simp: add.assoc add.commute)
  next
    case False
    obtain index g1 where d: "randint R g 0 count = (index, g1)" by (cases "randint R g 0 count") auto
    have rng: "0 \<le> index" "index \<le> count"
      using ok Cons.prems(1) d unfolding randint_ok_def by (metis fst_conv)+
    have full: "int (length reservoir) = T" using False Cons.prems by simp
    show ?thesis
    proof (cases "index < T")
      case True
      have si: "list_setitem reservoir index row = Inr (reservoir[nat index := row])"
        using rng True full by (simp add: list_setitem_in_range)
      have "0 \<le> count + 1" "int (length (reservoir[nat index := row])) \<le> T" using Cons.prems by auto
      from Cons.IH[OF this, of g1] obtain res' g' where
        h: "random_loop R T rows (reservoir[nat index := row], count + 1, g1) = Inr (res', count + 1 + int (length rows), g')"
         "length res' = min (nat T) (length (reservoir[nat index := row]) + length rows)"
         "set res' \<subseteq> set (reservoir[nat index := row]) \<union> set rows"
        by blast
      have sub: "set (reservoir[nat index := row]) \<subseteq> insert row (set reservoir)"
        by (rule set_update_subset_insert)
      show ?thesis using False True d si h sub full by (auto simp: add.assoc add.commute)
    next
      case F2: False
      have "0 \<le> count + 1" using Cons.prems by auto
      from Cons.IH[OF this Cons.prems(2), of g1] obtain res' g' where
        h: "random_loop R T rows (reservoir, count + 1, g1) = Inr (res', count + 1 + int (length rows), g')"
         "length res' = min (nat T) (length reservoir + length rows)"
         "set res' \<subseteq> set reservoir \<union> set rows"
        by blast
      show ?thesis using False F2 d h full by (auto simp: add.assoc add.commute)
    qed
  qed
qed

text \<open>
  Claim C2. For a generator whose \<open>randint\<close> keeps its contract and a target \<open>T \<ge> 1\<close>, the
  random sampler returns (it does not raise); it emits exactly \<open>min(T, N)\<close> rows, each a row
  of the input; when \<open>N \<le> T\<close> it emits the input in arrival order. When the buffer is full,
  the row arriving at 0-based position \<open>i\<close> (here \<open>i = length pre\<close>) makes the sampler
  draw \<open>randint(0, i)\<close>, and the row replaces the slot at the drawn index exactly when the
  draw is below \<open>T\<close>. That the draw is uniform is the generator's business.
\<close>

theorem random_sample_algorithm_R:
  assumes "randint_ok R" and "1 \<le> T"
  shows "\<exists>out. random_sample R T g rows = Inr out
           \<and> length out = min (nat T) (length rows)
           \<and> set out \<subseteq> set rows
           \<and> (length rows \<le> nat T \<longrightarrow> out = rows)
           \<and> (\<forall>pre row. rows = pre @ [row] \<and> nat T \<le> length pre \<longrightarrow>
                 (\<exists>reservoir g1. random_run R T g pre = Inr (reservoir, int (length pre), g1)
                    \<and> length reservoir = nat T
                    \<and> out = (if fst (randint R g1 0 (int (length pre))) < T
                             then reservoir[nat (fst (randint R g1 0 (int (length pre)))) := row]
                             else reservoir)))"
proof -
  have inv: "\<And>xs. \<exists>res' g'. random_run R T g xs = Inr (res', int (length xs), g')
      \<and> length res' = min (nat T) (length xs)
      \<and> set res' \<subseteq> set xs
      \<and> (length xs \<le> nat T \<longrightarrow> res' = xs)"
    using random_loop_inv[OF assms(1), of 0 "[]" T _ g] assms(2)
    by (simp add: random_run_def)
  from inv[of rows] obtain out g' where
    run: "random_run R T g rows = Inr (out, int (length rows), g')"
    and len: "length out = min (nat T) (length rows)"
    and sub: "set out \<subseteq> set rows"
    and small: "length rows \<le> nat T \<longrightarrow> out = rows"
    by blast
  have res: "random_sample R T g rows = Inr out"
    by (simp add: random_sample_def run)
  have step: "\<exists>reservoir g1. random_run R T g pre = Inr (reservoir, int (length pre), g1)
                    \<and> length reservoir = nat T
                    \<and> out = (if fst (randint R g1 0 (int (length pre))) < T
                             then reservoir[nat (fst (randint R g1 0 (int (length pre)))) := row]
                             else reservoir)"
    if eq: "rows = pre @ [row]" and full: "nat T \<le> length pre" for pre row
  proof -
    from inv[of pre] obtain reservoir g1 where
      p: "random_run R T g pre = Inr (reservoir, int (length pre), g1)"
      and plen: "length reservoir = min (nat T) (length pre)"
      by blast
    have rl: "length reservoir = nat T" using plen full by simp
    obtain index g2 where d: "randint R g1 0 (int (length pre)) = (index, g2)"
      by (cases "randint R g1 0 (int (length pre))") auto
    have rng: "0 \<le> index" "index \<le> int (length pre)"
      using assms(1) d unfolding randint_ok_def by (metis fst_conv of_nat_0_le_iff)+
    have "random_run R T g rows =
            (case random_run R T g pre of Inl e \<Rightarrow> Inl e | Inr st' \<Rightarrow> random_loop R T [row] st')"
      unfolding random_run_def eq by (rule random_loop_append)
    also have "\<dots> = random_loop R T [row] (reservoir, int (length pre), g1)"
      by (simp add: p)
    also have "\<dots> = Inr (if index < T then reservoir[nat index := row] else reservoir,
                           int (length pre) + 1, g2)"
      using rl assms(2) d rng by (simp add: list_setitem_in_range)
    finally have "out = (if index < T then reservoir[nat index := row] else reservoir)"
      using run by simp
    then show ?thesis using p rl d by simp
  qed
  show ?thesis using res len sub small step by blast
qed

theorem random_sample_algorithm_R_witness:
  "randint_ok low_rng \<and> (1::int) \<le> 2 \<and>
   random_sample low_rng 2 0 [''a'', ''b'', ''c''] = Inr [''c'', ''b'']"
proof -
  have ok: "randint_ok low_rng" by (simp add: randint_ok_def low_rng_def)
  have t: "(1::int) \<le> 2" by simp
  from random_sample_algorithm_R[OF ok t, of 0 "[''a'', ''b'', ''c'']"]
  have "\<exists>out. random_sample low_rng 2 0 [''a'', ''b'', ''c''] = Inr out \<and> length out = 2" by auto
  moreover have "random_sample low_rng 2 0 [''a'', ''b'', ''c''] = Inr [''c'', ''b'']"
    by (simp add: random_sample_def random_run_def low_rng_def list_setitem_def)
  ultimately show ?thesis using ok by simp
qed

section \<open>Properties of the composite sampler\<close>

lemma composite_sample_snoc:
  "composite_sample (samplers @ [sampler]) rows =
     (case composite_sample samplers rows of Inl e \<Rightarrow> Inl e | Inr mid \<Rightarrow> sampler mid)"
  by (induction samplers arbitrary: rows) (auto split: sum.splits)

text \<open>
  Claim C9. The composite sampler feeds the rows through its sub-samplers in list order:
  the first sub-sampler sees the upstream rows, and the last one sees what the chain before
  it produced. With an empty list it yields every upstream row unchanged, so an input
  longer than the target comes out longer than the target: the bound needs a bounding
  sub-sampler in the chain.
\<close>

theorem composite_sample_threads_in_order:
  "composite_sample [] rows = Inr rows
   \<and> composite_sample (sampler_a # samplers) rows =
       (case sampler_a rows of Inl e \<Rightarrow> Inl e | Inr mid \<Rightarrow> composite_sample samplers mid)
   \<and> composite_sample (samplers @ [sampler_n]) rows =
       (case composite_sample samplers rows of Inl e \<Rightarrow> Inl e | Inr mid \<Rightarrow> sampler_n mid)
   \<and> (\<forall>target_rows. target_rows < int (length rows) \<longrightarrow>
         (\<exists>out. composite_sample [] rows = Inr out \<and> \<not> int (length out) \<le> target_rows))"
  by (simp add: composite_sample_snoc)

theorem composite_sample_threads_in_order_witness:
  "(2::int) < int (length [''r1'', ''r2'', ''r3''])
   \<and> composite_sample [] [''r1'', ''r2'', ''r3''] = Inr [''r1'', ''r2'', ''r3'']
   \<and> composite_sample [\<lambda>rows. Inr (take 2 rows), \<lambda>rows. Inr (rev rows)] [''r1'', ''r2'', ''r3'']
        = Inr [''r2'', ''r1'']"
  using composite_sample_threads_in_order
    [where rows = "[''r1'', ''r2'', ''r3'']" and sampler_a = "\<lambda>rows. Inr (take 2 rows)"
       and samplers = "[\<lambda>rows. Inr (rev rows)]"]
  by simp

section \<open>Properties of the column statistics\<close>

lemma track_unique_min_max [simp]:
  "min_value (track_unique cs v) = min_value cs" "max_value (track_unique cs v) = max_value cs"
  by (simp_all add: track_unique_def Let_def)

lemma update_keeps_numeric_bounds:
  assumes "update cs v = Inr cs'" "numeric_bounds cs"
  shows "numeric_bounds cs'"
  using assms
  by (auto simp: update_def update_min_def update_max_def py_num_lt_def py_num_gt_def Let_def
        numeric_bounds_def split: if_splits sum.splits)

lemma update_returns:
  assumes "numeric_bounds cs" "is_hashable v"
  shows "\<exists>cs'. update cs v = Inr cs'"
  using assms
  by (auto simp: update_def update_min_def update_max_def py_num_lt_def py_num_gt_def Let_def
        numeric_bounds_def split: if_splits sum.splits)

lemma update_all_keeps_numeric_bounds:
  "update_all cs vs = Inr cs' \<Longrightarrow> numeric_bounds cs \<Longrightarrow> numeric_bounds cs'"
proof (induction vs arbitrary: cs)
  case Nil
  then show ?case by simp
next
  case (Cons v vs)
  then obtain c1 where s: "update cs v = Inr c1" and t: "update_all c1 vs = Inr cs'"
    by (auto split: sum.splits)
  from Cons.IH[OF t update_keeps_numeric_bounds[OF s Cons.prems(2)]] show ?case .
qed

lemma numeric_bounds_init: "numeric_bounds (ColumnStats_init name)"
  by (simp add: numeric_bounds_def ColumnStats_init_def)

lemma update_all_returns:
  "numeric_bounds cs \<Longrightarrow> \<forall>v \<in> set vs. is_hashable v \<Longrightarrow> \<exists>cs'. update_all cs vs = Inr cs'"
proof (induction vs arbitrary: cs)
  case Nil
  then show ?case by simp
next
  case (Cons v vs)
  from update_returns[of cs v] Cons.prems obtain c1 where s: "update cs v = Inr c1" by auto
  from Cons.IH[OF update_keeps_numeric_bounds[OF s Cons.prems(1)]] Cons.prems(2)
  obtain cs' where "update_all c1 vs = Inr cs'" by auto
  then show ?case using s by simp
qed

lemma update_unhashable:
  "\<not> is_hashable v \<Longrightarrow> update cs v = Inl TypeError"
  by (cases v) (simp_all add: update_def Let_def)

lemma update_bool_numeric:
  assumes "numeric_bounds st"
  shows "\<exists>st'. update st (VBool b) = Inr st'
      \<and> min_value st' = (if min_value st = VNone \<or> float_lt (FFin (if b then 1 else 0)) (num_of (min_value st))
                          then VBool b else min_value st)
      \<and> max_value st' = (if max_value st = VNone \<or> float_lt (num_of (max_value st)) (FFin (if b then 1 else 0))
                          then VBool b else max_value st)"
  using assms
  by (auto simp: update_def update_min_def update_max_def py_num_lt_def py_num_gt_def float_gt_def Let_def
        numeric_bounds_def)

lemma update_bool_bounds:
  assumes "bool_bounds S cs"
  shows "\<exists>cs'. update cs (VBool b) = Inr cs' \<and> bool_bounds (insert b S) cs'"
  using assms
  by (cases b; cases "False \<in> S"; cases "True \<in> S")
     (auto simp: update_def update_min_def update_max_def py_num_lt_def py_num_gt_def float_gt_def Let_def
        bool_bounds_def split: if_splits)

lemma update_all_bool_bounds:
  "bool_bounds S cs \<Longrightarrow> \<exists>cs'. update_all cs (map VBool bs) = Inr cs' \<and> bool_bounds (set bs \<union> S) cs'"
proof (induction bs arbitrary: cs S)
  case Nil
  then show ?case by simp
next
  case (Cons b bs)
  from update_bool_bounds[OF Cons.prems, of b] obtain c1 where
    s: "update cs (VBool b) = Inr c1" "bool_bounds (insert b S) c1" by blast
  from Cons.IH[OF s(2)] obtain cs' where
    t: "update_all c1 (map VBool bs) = Inr cs'" "bool_bounds (set bs \<union> insert b S) cs'" by blast
  have "set bs \<union> insert b S = set (b # bs) \<union> S" by auto
  then show ?case using s(1) t by simp
qed

lemma bool_bounds_init: "bool_bounds {} (ColumnStats_init name)"
  by (simp add: bool_bounds_def ColumnStats_init_def)

lemma manifest_entry_bounds:
  assumes "min_value cs \<noteq> VNone" "max_value cs \<noteq> VNone"
  shows "map_of (manifest_column_entry frepr cs) ''min_value'' = Some (JVal (min_value cs))"
    and "map_of (manifest_column_entry frepr cs) ''max_value'' = Some (JVal (max_value cs))"
  using assms by (simp_all add: manifest_column_entry_def)

lemma manifest_column_stats_entry:
  assumes "map_of d name = Some cs"
  shows "\<exists>block. manifest_column_stats frepr (Some d) = Some block
           \<and> map_of block name = Some (JObj (manifest_column_entry frepr cs))"
proof -
  have ne: "d \<noteq> []" using assms by auto
  have "map_of (map (\<lambda>(col_name, col_stats). (col_name, JObj (manifest_column_entry frepr col_stats))) d) name
          = Some (JObj (manifest_column_entry frepr cs))"
    using assms by (induction d) (auto split: if_splits)
  then show ?thesis using ne by (simp add: manifest_column_stats_def)
qed

lemma generate_manifest_column_stats:
  "map_of (generate_manifest version now_iso abs_path frepr input_path output_path config
             input_format output_format columns row_count stats) ''column_stats''
     = map_option JObj (manifest_column_stats frepr stats)"
  by (simp add: generate_manifest_def split: option.splits)


lemma dict_keys_of_set: "set (dict_keys_of cols) = set cols"
  by (induction cols) auto

lemma init_col_states_lookup:
  "map_of (init_col_states columns) k = (if k \<in> set columns then Some (ColumnStats_init k, []) else None)"
proof -
  have "map_of (map (\<lambda>col. (col, ColumnStats_init col, [])) ks) k
          = (if k \<in> set ks then Some (ColumnStats_init k, []) else None)" for ks
    by (induction ks) auto
  from this[of "dict_keys_of columns"] show ?thesis
    unfolding init_col_states_def dict_keys_of_set .
qed

lemma tracks_bool_column_init:
  "col \<in> set columns \<Longrightarrow> tracks_bool_column col {} (init_col_states columns)"
  by (auto simp: tracks_bool_column_def init_col_states_lookup numeric_bounds_init bool_bounds_init
        split: if_splits)

lemma feed_col_returns:
  assumes "map_of d c = Some (cs, vs)" "update cs v = Inr cs'"
  shows "\<exists>d'. feed_col d c v = Inr d' \<and> map_of d' = (map_of d)(c \<mapsto> (cs', vs @ [v]))"
  using assms
proof (induction d c v rule: feed_col.induct)
  case (1 col v)
  then show ?case by simp
next
  case (2 k cs0 vs0 d col v)
  show ?case
  proof (cases "k = col")
    case True
    then show ?thesis using 2 by (auto simp: fun_eq_iff)
  next
    case False
    then have "map_of d col = Some (cs, vs)" using 2 by simp
    from 2(1)[OF False this 2(3)] obtain d' where
      "feed_col d col v = Inr d'" "map_of d' = (map_of d)(col \<mapsto> (cs', vs @ [v]))" by blast
    then show ?thesis using False by (auto simp: fun_eq_iff)
  qed
qed

lemma feed_col_tracks:
  assumes inv: "tracks_bool_column col S d" and c: "c \<in> dom (map_of d)" and h: "is_hashable v"
    and b: "c = col \<longrightarrow> v = VBool b"
  shows "\<exists>d'. feed_col d c v = Inr d' \<and> dom (map_of d') = dom (map_of d)
           \<and> tracks_bool_column col (if c = col then insert b S else S) d'"
proof -
  from c obtain cs vs where e: "map_of d c = Some (cs, vs)" by auto
  have nb: "numeric_bounds cs" using inv e by (auto simp: tracks_bool_column_def)
  show ?thesis
  proof (cases "c = col")
    case True
    then have v: "v = VBool b" using b by simp
    have "bool_bounds S cs" using inv e True by (auto simp: tracks_bool_column_def)
    from update_bool_bounds[OF this, of b] obtain cs' where
      u: "update cs (VBool b) = Inr cs'" "bool_bounds (insert b S) cs'" by blast
    have nb': "numeric_bounds cs'" using update_keeps_numeric_bounds[OF u(1) nb] .
    from feed_col_returns[OF e] u(1) v obtain d' where
      f: "feed_col d c v = Inr d'" "map_of d' = (map_of d)(c \<mapsto> (cs', vs @ [v]))" by blast
    have "dom (map_of d') = dom (map_of d)" using f(2) e by auto
    moreover have "tracks_bool_column col (insert b S) d'"
      using inv f(2) nb' u(2) True by (auto simp: tracks_bool_column_def)
    ultimately show ?thesis using f(1) True by simp
  next
    case False
    from update_returns[OF nb h] obtain cs' where u: "update cs v = Inr cs'" by blast
    have nb': "numeric_bounds cs'" using update_keeps_numeric_bounds[OF u nb] .
    from feed_col_returns[OF e u] obtain d' where
      f: "feed_col d c v = Inr d'" "map_of d' = (map_of d)(c \<mapsto> (cs', vs @ [v]))" by blast
    have "dom (map_of d') = dom (map_of d)" using f(2) e by auto
    moreover have "tracks_bool_column col S d'"
      using inv f(2) nb' False by (auto simp: tracks_bool_column_def)
    ultimately show ?thesis using f(1) False by simp
  qed
qed

lemma feed_row_tracks:
  assumes "tracks_bool_column col S d" "set cols \<subseteq> dom (map_of d)"
    "\<forall>c \<in> set cols. is_hashable (row_get r c)" "row_get r col = VBool b"
  shows "\<exists>d'. feed_row d cols r = Inr d' \<and> dom (map_of d') = dom (map_of d)
           \<and> tracks_bool_column col (if col \<in> set cols then insert b S else S) d'"
  using assms
proof (induction cols arbitrary: d S)
  case Nil
  then show ?case by simp
next
  case (Cons c cols)
  have "c \<in> dom (map_of d)" "is_hashable (row_get r c)" "c = col \<longrightarrow> row_get r c = VBool b"
    using Cons.prems by auto
  from feed_col_tracks[OF Cons.prems(1) this] obtain d1 where
    f: "feed_col d c (row_get r c) = Inr d1" "dom (map_of d1) = dom (map_of d)"
       "tracks_bool_column col (if c = col then insert b S else S) d1" by blast
  have "set cols \<subseteq> dom (map_of d1)" "\<forall>c \<in> set cols. is_hashable (row_get r c)"
    using Cons.prems f(2) by auto
  from Cons.IH[OF f(3) this Cons.prems(4)] obtain d' where
    g: "feed_row d1 cols r = Inr d'" "dom (map_of d') = dom (map_of d1)"
       "tracks_bool_column col (if col \<in> set cols then insert b (if c = col then insert b S else S)
                                 else (if c = col then insert b S else S)) d'" by blast
  have "(if col \<in> set cols then insert b (if c = col then insert b S else S)
         else (if c = col then insert b S else S))
        = (if col \<in> set (c # cols) then insert b S else S)" by auto
  then show ?case using f(1,2) g by simp
qed

lemma feed_rows_tracks:
  assumes "tracks_bool_column col S d" "set columns \<subseteq> dom (map_of d)" "col \<in> set columns"
    "\<forall>r \<in> set rows. \<forall>c \<in> set columns. is_hashable (row_get r c)"
    "\<forall>r \<in> set rows. \<exists>b. row_get r col = VBool b"
  shows "\<exists>d'. feed_rows d columns rows = Inr d'
           \<and> tracks_bool_column col (S \<union> {b. \<exists>r \<in> set rows. row_get r col = VBool b}) d'"
  using assms
proof (induction rows arbitrary: d S)
  case Nil
  then show ?case by simp
next
  case (Cons r rows)
  from Cons.prems(5) obtain b where b: "row_get r col = VBool b" by auto
  have "\<forall>c \<in> set columns. is_hashable (row_get r c)" using Cons.prems(4) by simp
  from feed_row_tracks[OF Cons.prems(1,2) this b] Cons.prems(3) obtain d1 where
    f: "feed_row d columns r = Inr d1" "dom (map_of d1) = dom (map_of d)"
       "tracks_bool_column col (insert b S) d1" by auto
  have "set columns \<subseteq> dom (map_of d1)" using Cons.prems(2) f(2) by simp
  moreover have "\<forall>r \<in> set rows. \<forall>c \<in> set columns. is_hashable (row_get r c)"
    "\<forall>r \<in> set rows. \<exists>b. row_get r col = VBool b" using Cons.prems(4,5) by simp_all
  ultimately obtain d' where
    g: "feed_rows d1 columns rows = Inr d'"
       "tracks_bool_column col (insert b S \<union> {b. \<exists>r \<in> set rows. row_get r col = VBool b}) d'"
    using Cons.IH[OF f(3) _ Cons.prems(3)] by blast
  have "insert b S \<union> {b. \<exists>r \<in> set rows. row_get r col = VBool b}
        = S \<union> {b. \<exists>r' \<in> set (r # rows). row_get r' col = VBool b}"
    using b by auto
  then show ?case using f(1) g by simp
qed

lemma finish_col_lookup:
  "map_of (map (finish_col n) d) k = map_option (\<lambda>(cs, vs). snd (finish_col n (k, cs, vs))) (map_of d k)"
  by (induction d) (auto simp: finish_col_def Let_def)

lemma finish_col_bounds:
  "min_value (snd (finish_col n (k, cs, vs))) = min_value cs"
  "max_value (snd (finish_col n (k, cs, vs))) = max_value cs"
  by (simp_all add: finish_col_def Let_def)

text \<open>
  The statistics that \<open>sample_file\<close> collects for the manifest. The rows that the readers
  deliver hold \<open>None\<close>, booleans, numbers and text, all of them hashable. For such rows the
  collection returns, and a column of the manifest that holds a boolean in every sampled
  row (at least one row) gets the bounds of its booleans in the \<open>column_stats\<close> block.
\<close>

lemma sample_file_manifest_bool_column:
  assumes "col \<in> set columns" "rows \<noteq> []"
    and "\<forall>r \<in> set rows. \<exists>b. row_get r col = VBool b"
    and "\<forall>r \<in> set rows. \<forall>c \<in> set columns. is_hashable (row_get r c)"
  shows "\<exists>stats block entry. stats_for_manifest rows columns = Some stats
     \<and> map_of (generate_manifest version now_iso abs_path frepr input_path output_path config
                 input_format output_format columns row_count (stats_for_manifest rows columns))
          ''column_stats'' = Some (JObj block)
     \<and> map_of block col = Some (JObj entry)
     \<and> map_of entry ''min_value'' = Some (JVal (VBool (\<forall>r \<in> set rows. row_get r col = VBool True)))
     \<and> map_of entry ''max_value'' = Some (JVal (VBool (\<exists>r \<in> set rows. row_get r col = VBool True)))"
proof -
  define S where "S = {b. \<exists>r \<in> set rows. row_get r col = VBool b}"
  have ne: "S \<noteq> {}" using assms(2,3) by (cases rows) (auto simp: S_def)
  have dom0: "set columns \<subseteq> dom (map_of (init_col_states columns))"
    by (auto simp: init_col_states_lookup)
  from feed_rows_tracks[OF tracks_bool_column_init[OF assms(1)] dom0 assms(1) assms(4) assms(3)]
  obtain d where
    f: "feed_rows (init_col_states columns) columns rows = Inr d" "tracks_bool_column col S d"
    by (auto simp: S_def)
  from f(2) obtain cs vs where
    e: "map_of d col = Some (cs, vs)" "bool_bounds S cs" by (auto simp: tracks_bool_column_def)
  have mn: "min_value cs = VBool (False \<notin> S)" and mx: "max_value cs = VBool (True \<in> S)"
    using e(2) ne by (simp_all add: bool_bounds_def)
  have a: "(False \<notin> S) = (\<forall>r \<in> set rows. row_get r col = VBool True)"
  proof
    assume n: "False \<notin> S"
    show "\<forall>r \<in> set rows. row_get r col = VBool True"
    proof
      fix r assume r: "r \<in> set rows"
      then obtain b where b: "row_get r col = VBool b" using assms(3) by blast
      then have "b \<in> S" using r by (auto simp: S_def)
      then have "b" using n by (cases b) auto
      then show "row_get r col = VBool True" using b by simp
    qed
  next
    assume "\<forall>r \<in> set rows. row_get r col = VBool True"
    then show "False \<notin> S" by (auto simp: S_def)
  qed
  have b: "(True \<in> S) = (\<exists>r \<in> set rows. row_get r col = VBool True)"
    by (auto simp: S_def)
  define stats where "stats = map (finish_col 10) d"
  define cs2 where "cs2 = snd (finish_col 10 (col, cs, vs))"
  have st: "stats_for_manifest rows columns = Some stats"
    using f(1) by (simp add: stats_for_manifest_def collect_stats_def rows_within_def stats_def)
  have lk: "map_of stats col = Some cs2"
    using e(1) by (simp add: stats_def cs2_def finish_col_lookup)
  have mn2: "min_value cs2 = VBool (\<forall>r \<in> set rows. row_get r col = VBool True)"
    and mx2: "max_value cs2 = VBool (\<exists>r \<in> set rows. row_get r col = VBool True)"
    using mn mx a b by (simp_all add: cs2_def finish_col_bounds)
  from manifest_column_stats_entry[OF lk, of frepr] obtain block where
    bl: "manifest_column_stats frepr (Some stats) = Some block"
        "map_of block col = Some (JObj (manifest_column_entry frepr cs2))" by blast
  have m: "map_of (generate_manifest version now_iso abs_path frepr input_path output_path config
                 input_format output_format columns row_count (stats_for_manifest rows columns))
          ''column_stats'' = Some (JObj block)"
    using st bl(1) by (simp add: generate_manifest_column_stats)
  have e1: "map_of (manifest_column_entry frepr cs2) ''min_value''
              = Some (JVal (VBool (\<forall>r \<in> set rows. row_get r col = VBool True)))"
    using manifest_entry_bounds(1)[of cs2 frepr] mn2 mx2 by simp
  have e2: "map_of (manifest_column_entry frepr cs2) ''max_value''
              = Some (JVal (VBool (\<exists>r \<in> set rows. row_get r col = VBool True)))"
    using manifest_entry_bounds(2)[of cs2 frepr] mn2 mx2 by simp
  show ?thesis using st m bl(2) e1 e2 by blast
qed

lemma sample_file_manifest_example:
  "map_of (generate_manifest ''1.0'' ''2025-01-01T00:00:00'' (\<lambda>p. CHR ''/'' # p) example_frepr
             ''in.jsonl'' ''out.jsonl'' outlier_config ''jsonl'' ''jsonl'' [''flag'', ''n''] 2
             (stats_for_manifest
                [[(''flag'', VBool True), (''n'', VInt 3)], [(''flag'', VBool False), (''n'', VInt 2)]]
                [''flag'', ''n'']))
      ''column_stats''
   = Some (JObj
       [(''flag'', JObj [(''type_guess'', JStr ''boolean''), (''null_count'', JInt 0), (''total_count'', JInt 2),
                        (''unique_count'', JInt 2), (''min_value'', JVal (VBool False)),
                        (''max_value'', JVal (VBool True)),
                        (''top_values'', JList [JList [JStr ''True'', JInt 1], JList [JStr ''False'', JInt 1]])]),
        (''n'', JObj [(''type_guess'', JStr ''integer''), (''null_count'', JInt 0), (''total_count'', JInt 2),
                     (''unique_count'', JInt 2), (''min_value'', JVal (VInt 2)),
                     (''max_value'', JVal (VInt 3)),
                     (''top_values'', JList [JList [JStr ''3'', JInt 1], JList [JStr ''2'', JInt 1]])])])"
  by code_simp

text \<open>
Claim C10. Column statistics treat booleans as numbers. For every column, whatever values
  \<open>ColumnStats.update\<close> has taken in before, a boolean is taken in without an exception
  and takes part in the running comparison as 1 (\<open>True\<close>) or 0 (\<open>False\<close>): it becomes the
  new minimum exactly when there is no minimum yet or its number is below the number of
  the running minimum, an integer, a float or a boolean, and the new maximum exactly when
  there is no maximum yet or its number is above the number of the running maximum. A
  column that holds only booleans (at least one) acquires a non-null \<open>min_value\<close>
  (\<open>False\<close> if the column has one, else \<open>True\<close>) and a non-null \<open>max_value\<close> (\<open>True\<close> if
  the column has one, else \<open>False\<close>), and the manifest that \<open>generate_manifest\<close> builds
  from statistics holding this column has a \<open>column_stats\<close> block whose entry for the
  column carries both booleans under the keys \<open>min_value\<close> and \<open>max_value\<close>.
\<close>

theorem update_bool_min_max:
  "(update_all (ColumnStats_init name) vs = Inr st \<longrightarrow>
      (\<exists>st'. update st (VBool b) = Inr st'
         \<and> min_value st' =
             (if min_value st = VNone \<or> float_lt (FFin (if b then 1 else 0)) (num_of (min_value st))
              then VBool b else min_value st)
         \<and> max_value st' =
             (if max_value st = VNone \<or> float_lt (num_of (max_value st)) (FFin (if b then 1 else 0))
              then VBool b else max_value st)))
   \<and> (bs \<noteq> [] \<longrightarrow>
      (\<exists>cs. update_all (ColumnStats_init name) (map VBool bs) = Inr cs
         \<and> min_value cs = VBool (False \<notin> set bs) \<and> max_value cs = VBool (True \<in> set bs)
         \<and> (\<forall>d. map_of d name = Some cs \<longrightarrow>
               (\<exists>block entry.
                  manifest_column_stats frepr (Some d) = Some block
                  \<and> map_of (generate_manifest version now_iso abs_path frepr input_path output_path config
                              input_format output_format cols row_count (Some d))
                       ''column_stats'' = Some (JObj block)
                  \<and> map_of block name = Some (JObj entry)
                  \<and> entry = manifest_column_entry frepr cs
                  \<and> map_of entry ''min_value'' = Some (JVal (VBool (False \<notin> set bs)))
                  \<and> map_of entry ''max_value'' = Some (JVal (VBool (True \<in> set bs)))))))"
proof (intro conjI impI)
  assume "update_all (ColumnStats_init name) vs = Inr st"
  then have "numeric_bounds st"
    using update_all_keeps_numeric_bounds numeric_bounds_init by blast
  then show "\<exists>st'. update st (VBool b) = Inr st'
         \<and> min_value st' =
             (if min_value st = VNone \<or> float_lt (FFin (if b then 1 else 0)) (num_of (min_value st))
              then VBool b else min_value st)
         \<and> max_value st' =
             (if max_value st = VNone \<or> float_lt (num_of (max_value st)) (FFin (if b then 1 else 0))
              then VBool b else max_value st)"
    by (rule update_bool_numeric)
next
  assume ne: "bs \<noteq> []"
  from update_all_bool_bounds[OF bool_bounds_init[of name], where bs = bs] obtain cs where
    run: "update_all (ColumnStats_init name) (map VBool bs) = Inr cs" and bb: "bool_bounds (set bs) cs"
    by auto
  have mn: "min_value cs = VBool (False \<notin> set bs)" and mx: "max_value cs = VBool (True \<in> set bs)"
    using bb ne by (simp_all add: bool_bounds_def)
  have man: "\<forall>d. map_of d name = Some cs \<longrightarrow>
               (\<exists>block entry.
                  manifest_column_stats frepr (Some d) = Some block
                  \<and> map_of (generate_manifest version now_iso abs_path frepr input_path output_path config
                              input_format output_format cols row_count (Some d))
                       ''column_stats'' = Some (JObj block)
                  \<and> map_of block name = Some (JObj entry)
                  \<and> entry = manifest_column_entry frepr cs
                  \<and> map_of entry ''min_value'' = Some (JVal (VBool (False \<notin> set bs)))
                  \<and> map_of entry ''max_value'' = Some (JVal (VBool (True \<in> set bs))))"
  proof (intro allI impI)
    fix d assume lk: "map_of d name = Some cs"
    from manifest_column_stats_entry[OF lk, of frepr] obtain block where
      bl: "manifest_column_stats frepr (Some d) = Some block"
          "map_of block name = Some (JObj (manifest_column_entry frepr cs))" by blast
    have m: "map_of (generate_manifest version now_iso abs_path frepr input_path output_path config
                              input_format output_format cols row_count (Some d))
                       ''column_stats'' = Some (JObj block)"
      using bl(1) by (simp add: generate_manifest_column_stats)
    have e1: "map_of (manifest_column_entry frepr cs) ''min_value'' = Some (JVal (VBool (False \<notin> set bs)))"
      using manifest_entry_bounds(1)[of cs frepr] mn mx by simp
    have e2: "map_of (manifest_column_entry frepr cs) ''max_value'' = Some (JVal (VBool (True \<in> set bs)))"
      using manifest_entry_bounds(2)[of cs frepr] mn mx by simp
    show "\<exists>block entry.
                  manifest_column_stats frepr (Some d) = Some block
                  \<and> map_of (generate_manifest version now_iso abs_path frepr input_path output_path config
                              input_format output_format cols row_count (Some d))
                       ''column_stats'' = Some (JObj block)
                  \<and> map_of block name = Some (JObj entry)
                  \<and> entry = manifest_column_entry frepr cs
                  \<and> map_of entry ''min_value'' = Some (JVal (VBool (False \<notin> set bs)))
                  \<and> map_of entry ''max_value'' = Some (JVal (VBool (True \<in> set bs)))"
      using bl m e1 e2 by blast
  qed
  show "\<exists>cs. update_all (ColumnStats_init name) (map VBool bs) = Inr cs
         \<and> min_value cs = VBool (False \<notin> set bs) \<and> max_value cs = VBool (True \<in> set bs)
         \<and> (\<forall>d. map_of d name = Some cs \<longrightarrow>
               (\<exists>block entry.
                  manifest_column_stats frepr (Some d) = Some block
                  \<and> map_of (generate_manifest version now_iso abs_path frepr input_path output_path config
                              input_format output_format cols row_count (Some d))
                       ''column_stats'' = Some (JObj block)
                  \<and> map_of block name = Some (JObj entry)
                  \<and> entry = manifest_column_entry frepr cs
                  \<and> map_of entry ''min_value'' = Some (JVal (VBool (False \<notin> set bs)))
                  \<and> map_of entry ''max_value'' = Some (JVal (VBool (True \<in> set bs)))))"
    using run mn mx man by blast
qed

theorem update_bool_min_max_witness:
  "(\<exists>st. update_all (ColumnStats_init ''flag'') [VFloat (FFin (5 / 2)), VInt 7] = Inr st
        \<and> min_value st = VFloat (FFin (5 / 2)) \<and> max_value st = VInt 7
        \<and> (\<exists>st'. update st (VBool True) = Inr st'
              \<and> min_value st' = VBool True \<and> max_value st' = VInt 7))
   \<and> [True, False, True] \<noteq> []
   \<and> (\<exists>cs. update_all (ColumnStats_init ''flag'') (map VBool [True, False, True]) = Inr cs
        \<and> min_value cs = VBool False \<and> max_value cs = VBool True
        \<and> map_of [(''flag'', cs)] ''flag'' = Some cs
        \<and> (\<exists>block entry.
              map_of (generate_manifest ''1.0'' ''2025-01-01T00:00:00'' (\<lambda>p. CHR ''/'' # p) example_frepr
                        ''in.jsonl'' ''out.jsonl'' outlier_config ''jsonl'' ''jsonl'' [''flag''] 3
                        (Some [(''flag'', cs)]))
                 ''column_stats'' = Some (JObj block)
              \<and> map_of block ''flag'' = Some (JObj entry)
              \<and> map_of entry ''min_value'' = Some (JVal (VBool False))
              \<and> map_of entry ''max_value'' = Some (JVal (VBool True))))"
proof -
  obtain st where st: "update_all (ColumnStats_init ''flag'') [VFloat (FFin (5 / 2)), VInt 7] = Inr st"
    and b: "min_value st = VFloat (FFin (5 / 2))" "max_value st = VInt 7"
    by (simp add: update_def update_min_def update_max_def py_num_lt_def py_num_gt_def float_gt_def
          Let_def ColumnStats_init_def)
  note inst = update_bool_min_max[where name = "''flag''" and vs = "[VFloat (FFin (5 / 2)), VInt 7]"
      and st = st and b = True and bs = "[True, False, True]" and frepr = example_frepr
      and version = "''1.0''" and now_iso = "''2025-01-01T00:00:00''" and abs_path = "\<lambda>p. CHR ''/'' # p"
      and input_path = "''in.jsonl''" and output_path = "''out.jsonl''" and config = outlier_config
      and input_format = "''jsonl''" and output_format = "''jsonl''" and cols = "[''flag'']"
      and row_count = 3]
  from inst st b have 1: "\<exists>st'. update st (VBool True) = Inr st'
              \<and> min_value st' = VBool True \<and> max_value st' = VInt 7"
    by simp
  from inst obtain cs where
    c: "update_all (ColumnStats_init ''flag'') (map VBool [True, False, True]) = Inr cs"
       "min_value cs = VBool (False \<notin> set [True, False, True])"
       "max_value cs = VBool (True \<in> set [True, False, True])"
    and m: "\<forall>d. map_of d ''flag'' = Some cs \<longrightarrow>
               (\<exists>block entry.
                  manifest_column_stats example_frepr (Some d) = Some block
                  \<and> map_of (generate_manifest ''1.0'' ''2025-01-01T00:00:00'' (\<lambda>p. CHR ''/'' # p) example_frepr
                        ''in.jsonl'' ''out.jsonl'' outlier_config ''jsonl'' ''jsonl'' [''flag''] 3 (Some d))
                       ''column_stats'' = Some (JObj block)
                  \<and> map_of block ''flag'' = Some (JObj entry)
                  \<and> entry = manifest_column_entry example_frepr cs
                  \<and> map_of entry ''min_value'' = Some (JVal (VBool (False \<notin> set [True, False, True])))
                  \<and> map_of entry ''max_value'' = Some (JVal (VBool (True \<in> set [True, False, True]))))"
    by auto
  have lk: "map_of [(''flag'', cs)] ''flag'' = Some cs" by simp
  from m lk obtain block entry where
    "map_of (generate_manifest ''1.0'' ''2025-01-01T00:00:00'' (\<lambda>p. CHR ''/'' # p) example_frepr
                        ''in.jsonl'' ''out.jsonl'' outlier_config ''jsonl'' ''jsonl'' [''flag''] 3
                        (Some [(''flag'', cs)]))
                 ''column_stats'' = Some (JObj block)"
    "map_of block ''flag'' = Some (JObj entry)"
    "map_of entry ''min_value'' = Some (JVal (VBool (False \<notin> set [True, False, True])))"
    "map_of entry ''max_value'' = Some (JVal (VBool (True \<in> set [True, False, True])))"
    by blast
  then have 2: "\<exists>block entry.
              map_of (generate_manifest ''1.0'' ''2025-01-01T00:00:00'' (\<lambda>p. CHR ''/'' # p) example_frepr
                        ''in.jsonl'' ''out.jsonl'' outlier_config ''jsonl'' ''jsonl'' [''flag''] 3
                        (Some [(''flag'', cs)]))
                 ''column_stats'' = Some (JObj block)
              \<and> map_of block ''flag'' = Some (JObj entry)
              \<and> map_of entry ''min_value'' = Some (JVal (VBool False))
              \<and> map_of entry ''max_value'' = Some (JVal (VBool True))"
    by auto
  show ?thesis using st b 1 c lk 2 by auto
qed

section \<open>Properties of the type inference\<close>

lemma dict_incr_keys: "fst ` set (dict_incr d t) = insert t (fst ` set d)"
  by (induction d t rule: dict_incr.induct) auto

lemma dict_incr_distinct: "distinct (map fst d) \<Longrightarrow> distinct (map fst (dict_incr d t))"
proof (induction d t rule: dict_incr.induct)
  case (1 t)
  show ?case by simp
next
  case (2 k n d t)
  then show ?case using dict_incr_keys[of d t] by (auto simp flip: set_map)
qed

lemma dict_incr_map_of:
  "map_of (dict_incr d t) = (map_of d)(t \<mapsto> (case map_of d t of None \<Rightarrow> 0 | Some n \<Rightarrow> n) + 1)"
  by (induction d t rule: dict_incr.induct) (auto simp: fun_eq_iff)

lemma tag_count_incr: "tag_count (dict_incr d t) u = tag_count d u + (if u = t then 1 else 0)"
  by (simp add: tag_count_def dict_incr_map_of)

lemma count_types_distinct:
  "distinct (map fst d) \<Longrightarrow> distinct (map fst (count_types vs d))"
  by (induction vs d rule: count_types.induct) (auto simp: dict_incr_distinct)

lemma count_types_keys:
  "fst ` set (count_types vs d) = fst ` set d \<union> set (map infer_type (filter (\<lambda>v. v \<noteq> VNone) vs))"
  by (induction vs d rule: count_types.induct) (auto simp: dict_incr_keys)

lemma count_types_count:
  "tag_count (count_types vs d) t =
     tag_count d t + int (count_list (map infer_type (filter (\<lambda>v. v \<noteq> VNone) vs)) t)"
  by (induction vs d rule: count_types.induct) (auto simp: tag_count_incr)

lemma max_by_count_mem: "max_by_count best xs \<in> set (best # xs)"
  by (induction best xs rule: max_by_count.induct) auto

lemma max_by_count_best: "snd best \<le> snd (max_by_count best xs)"
proof (induction best xs rule: max_by_count.induct)
  case (1 best)
  show ?case by simp
next
  case (2 best y ys)
  then show ?case by (cases "snd best < snd y") auto
qed

lemma max_by_count_ge: "x \<in> set xs \<Longrightarrow> snd x \<le> snd (max_by_count best xs)"
proof (induction best xs rule: max_by_count.induct)
  case (1 best)
  then show ?case by simp
next
  case (2 best y ys)
  show ?case
  proof (cases "x = y")
    case True
    show ?thesis
    proof (cases "snd best < snd y")
      case T: True
      then show ?thesis using True max_by_count_best[of y ys] by simp
    next
      case F: False
      then have "snd y \<le> snd best" by simp
      also have "\<dots> \<le> snd (max_by_count best ys)" by (rule max_by_count_best)
      finally show ?thesis using True F by simp
    qed
  next
    case False
    then have "x \<in> set ys" using "2.prems" by simp
    then show ?thesis using "2.IH" by (cases "snd best < snd y") auto
  qed
qed

lemma tag_count_of_member:
  "distinct (map fst d) \<Longrightarrow> (k, n) \<in> set d \<Longrightarrow> tag_count d k = n"
  by (simp add: tag_count_def)

lemma tag_count_absent: "t \<notin> fst ` set d \<Longrightarrow> tag_count d t = 0"
  using map_of_eq_None_iff[of d t] by (simp add: tag_count_def)

lemma infer_column_type_take:
  "infer_column_type values n = infer_column_type (take n values) n"
  by (cases "n < length values") (auto simp: infer_column_type_def Let_def)

lemma infer_column_type_modal:
  fixes vals :: "pyval list" and n :: nat
  defines "tags \<equiv> map infer_type (filter (\<lambda>v. v \<noteq> VNone) (take n vals))"
  shows "(tags = [] \<longrightarrow> infer_column_type vals n = UNKNOWN)
       \<and> (tags \<noteq> [] \<longrightarrow> infer_column_type vals n \<in> set tags
             \<and> (\<forall>t. count_list tags t \<le> count_list tags (infer_column_type vals n)))"
proof -
  define d where "d = count_types (take n vals) []"
  have sample: "(if n < length vals then take n vals else vals) = take n vals" by simp
  have res: "infer_column_type vals n =
               (if vals = [] then UNKNOWN else case d of [] \<Rightarrow> UNKNOWN | x # xs \<Rightarrow> fst (max_by_count x xs))"
    unfolding infer_column_type_def Let_def sample d_def by simp
  have keys: "fst ` set d = set tags" unfolding d_def tags_def using count_types_keys[of "take n vals" "[]"] by simp
  have dist: "distinct (map fst d)" unfolding d_def by (rule count_types_distinct) simp
  have cnt: "tag_count d t = int (count_list tags t)" for t
    unfolding d_def tags_def using count_types_count[of "take n vals" "[]" t] by (simp add: tag_count_def)
  show ?thesis
  proof (cases "tags = []")
    case True
    then have "d = []" using keys by auto
    then show ?thesis using True res by simp
  next
    case False
    then have dne: "d \<noteq> []" using keys by auto
    then obtain x xs where dx: "d = x # xs" by (cases d) auto
    have vne: "vals \<noteq> []" using False unfolding tags_def by auto
    define w where "w = max_by_count x xs"
    have r: "infer_column_type vals n = fst w" using res vne dx w_def by simp
    have wm: "w \<in> set d" unfolding w_def dx by (rule max_by_count_mem)
    have wc: "tag_count d (fst w) = snd w" using tag_count_of_member[OF dist, of "fst w" "snd w"] wm by simp
    have ge: "count_list tags t \<le> count_list tags (fst w)" for t
    proof (cases "t \<in> fst ` set d")
      case True
      then obtain m where tm: "(t, m) \<in> set d" by auto
      have "tag_count d t = m" using tag_count_of_member[OF dist tm] .
      moreover have "m \<le> snd w"
      proof (cases "(t, m) = x")
        case True
        then show ?thesis using max_by_count_best[of x xs] unfolding w_def by auto
      next
        case False
        then have "(t, m) \<in> set xs" using tm dx by simp
        then show ?thesis using max_by_count_ge[of "(t, m)" xs x] unfolding w_def by simp
      qed
      ultimately have "int (count_list tags t) \<le> int (count_list tags (fst w))" using cnt wc by metis
      then show ?thesis by simp
    next
      case F: False
      then have "tag_count d t = 0" by (rule tag_count_absent)
      then have "count_list tags t = 0" using cnt[of t] by simp
      then show ?thesis by simp
    qed
    have "fst w \<in> set tags" using wm keys by force
    then show ?thesis using False r ge by simp
  qed
qed

text \<open>
Claim C8, as amended. Per-column type inference looks at the first 100 values of the
  column and skips the null values among them, so null values do use up the budget. It
  counts the inferred tags of the remaining values and returns a tag with the highest
  count; when the first 100 values hold no non-null value (in particular for an empty
  column) the result is \<open>unknown\<close>, whatever comes later in the column.
\<close>

theorem infer_column_type_first_100:
  "infer_column_type values 100 = infer_column_type (take 100 values) 100
   \<and> (filter (\<lambda>v. v \<noteq> VNone) (take 100 values) = [] \<longrightarrow> infer_column_type values 100 = UNKNOWN)
   \<and> (filter (\<lambda>v. v \<noteq> VNone) (take 100 values) \<noteq> [] \<longrightarrow>
        infer_column_type values 100 \<in> infer_type ` {v \<in> set (take 100 values). v \<noteq> VNone}
        \<and> (\<forall>t. count_list (map infer_type (filter (\<lambda>v. v \<noteq> VNone) (take 100 values))) t
               \<le> count_list (map infer_type (filter (\<lambda>v. v \<noteq> VNone) (take 100 values)))
                    (infer_column_type values 100)))"
  using infer_column_type_take[of "values" 100] infer_column_type_modal[of 100 "values"]
  by auto

theorem infer_column_type_first_100_witness:
  "infer_column_type (replicate 100 VNone @ [VStr ''abc'']) 100 = UNKNOWN
   \<and> filter (\<lambda>v. v \<noteq> VNone) (take 100 [VNone, VInt 3, VStr ''x'', VInt 4]) \<noteq> []
   \<and> infer_column_type [VNone, VInt 3, VStr ''x'', VInt 4] 100 = INTEGER"
proof -
  have a: "take 100 (replicate 100 VNone @ [VStr ''abc'']) = replicate 100 VNone" by simp
  have "filter (\<lambda>v. v \<noteq> VNone) (take 100 (replicate 100 VNone @ [VStr ''abc''])) = []"
    unfolding a by simp
  then have u: "infer_column_type (replicate 100 VNone @ [VStr ''abc'']) 100 = UNKNOWN"
    using infer_column_type_first_100[of "replicate 100 VNone @ [VStr ''abc'']"] by blast
  have i: "infer_column_type [VNone, VInt 3, VStr ''x'', VInt 4] 100 = INTEGER"
    by code_simp
  show ?thesis using u i by simp
qed

theorem infer_column_type_null_budget_counterexample:
  "infer_column_type (replicate 100 VNone @ [VStr ''abc'']) 100
     \<noteq> infer_column_type_nonnull_budget (replicate 100 VNone @ [VStr ''abc''])"
  by code_simp

section \<open>Properties of the format detector\<close>

lemma lower_char_not_I: "lower_char c \<noteq> CHR ''I''"
proof
  assume a: "lower_char c = CHR ''I''"
  show False
  proof (cases "65 \<le> ord c \<and> ord c \<le> 90")
    case True
    then have "lower_char c = char_of (ord c + 32)" by (simp add: lower_char_def)
    then have "of_char (lower_char c) = (ord c + 32) mod 256" by simp
    moreover have "(of_char (lower_char c) :: nat) = 73" using a by simp
    ultimately show False using True by simp
  next
    case False
    then have "lower_char c = c" by (auto simp add: lower_char_def)
    then have "c = CHR ''I''" using a by simp
    then have "ord c = 73" by (simp add: ord_def)
    then show False using False by simp
  qed
qed

lemma match_INSERT_INTO_has_I: "match_INSERT_INTO s \<Longrightarrow> CHR ''I'' \<in> set s"
  by (cases s) (auto simp: match_INSERT_INTO_def)

lemma re_search_suffix: "re_search m s \<Longrightarrow> \<exists>pre t. s = pre @ t \<and> m t"
proof (induction s)
  case Nil
  then show ?case by auto
next
  case (Cons c cs)
  show ?case
  proof (cases "m (c # cs)")
    case True
    then show ?thesis by (metis append_Nil)
  next
    case False
    then have "re_search m cs" using Cons.prems by simp
    then obtain pre t where "cs = pre @ t" "m t" using Cons.IH by blast
    then show ?thesis by (metis append_Cons)
  qed
qed

lemma re_search_lower_never: "\<not> re_search match_INSERT_INTO (py_lower s)"
proof
  assume "re_search match_INSERT_INTO (py_lower s)"
  then obtain pre t where e: "py_lower s = pre @ t" and m: "match_INSERT_INTO t"
    using re_search_suffix by blast
  have "CHR ''I'' \<in> set (py_lower s)" using match_INSERT_INTO_has_I[OF m] e by simp
  then obtain c where "lower_char c = CHR ''I''" by (auto simp: py_lower_def)
  then show False using lower_char_not_I by blast
qed

lemma detect_format_content_never_SQL:
  assumes "py_lower (path_suffix file_path) \<noteq> ''.sql''"
  shows "detect_format json_loads_ok file_path content_hint \<noteq> SQL"
  using assms re_search_lower_never
  by (auto simp: detect_format_def Let_def split: option.splits)

text \<open>
Claim C4, as amended. For a path whose extension is not a recognised one and a
  non-empty content fragment, \<open>detect_format\<close> applies the content rules in this order: a
  fragment whose trimmed content begins with \<open>{\<close>, ends with \<open>}\<close> and parses as JSON
  yields \<open>jsonlines\<close>; else a fragment containing both a comma and a newline yields
  \<open>tabular\<close>, before any \<open>INSERT INTO\<close> rule is looked at; else a fragment without a
  case-insensitive match of \<open>INSERT\s+INTO\<close> yields \<open>unknown\<close>.
\<close>

theorem detect_format_content_rules:
  assumes "py_lower (path_suffix file_path) \<notin> set [''.csv'', ''.jsonl'', ''.ndjson'', ''.log'', ''.sql'']"
    and "hint \<noteq> []"
  shows "(startswith (py_strip hint) ''{'' \<and> endswith (py_strip hint) ''}'' \<and> json_loads_ok (py_strip hint)
            \<longrightarrow> detect_format json_loads_ok file_path (Some hint) = JSONL)
       \<and> (\<not> (startswith (py_strip hint) ''{'' \<and> endswith (py_strip hint) ''}'' \<and> json_loads_ok (py_strip hint))
            \<and> CHR '','' \<in> set hint \<and> CHR 0x0A \<in> set hint
            \<longrightarrow> detect_format json_loads_ok file_path (Some hint) = CSV)
       \<and> (\<not> (startswith (py_strip hint) ''{'' \<and> endswith (py_strip hint) ''}'' \<and> json_loads_ok (py_strip hint))
            \<and> \<not> (CHR '','' \<in> set hint \<and> CHR 0x0A \<in> set hint)
            \<and> \<not> re_search match_INSERT_INTO (py_upper hint)
            \<longrightarrow> detect_format json_loads_ok file_path (Some hint) = UNKNOWN_FORMAT)"
  using assms re_search_lower_never[of hint]
  by (simp add: detect_format_def Let_def)

theorem detect_format_content_rules_witness:
  "py_lower (path_suffix ''export.txt'') \<notin> set [''.csv'', ''.jsonl'', ''.ndjson'', ''.log'', ''.sql'']
   \<and> ''id,name'' @ [CHR 0x0A] @ ''1,a'' \<noteq> []
   \<and> detect_format (\<lambda>text. True) ''export.txt'' (Some (''id,name'' @ [CHR 0x0A] @ ''1,a'')) = CSV
   \<and> detect_format (\<lambda>text. True) ''export.txt'' (Some ''{}'') = JSONL
   \<and> detect_format (\<lambda>text. True) ''export.txt'' (Some ''hello'') = UNKNOWN_FORMAT"
proof -
  have p: "py_lower (path_suffix ''export.txt'') \<notin> set [''.csv'', ''.jsonl'', ''.ndjson'', ''.log'', ''.sql'']"
    by code_simp
  have n1: "''id,name'' @ [CHR 0x0A] @ ''1,a'' \<noteq> []" by simp
  have n2: "''{}'' \<noteq> []" by simp
  have n3: "''hello'' \<noteq> []" by simp
  have s1: "\<not> startswith (py_strip (''id,name'' @ [CHR 0x0A] @ ''1,a'')) ''{''" by code_simp
  have s2: "startswith (py_strip ''{}'') ''{'' \<and> endswith (py_strip ''{}'') ''}''" by code_simp
  have s3: "\<not> startswith (py_strip ''hello'') ''{''" by code_simp
  have s4: "\<not> re_search match_INSERT_INTO (py_upper ''hello'')" by code_simp
  show ?thesis
    using detect_format_content_rules[OF p n1, of "\<lambda>text. True"]
          detect_format_content_rules[OF p n2, of "\<lambda>text. True"]
          detect_format_content_rules[OF p n3, of "\<lambda>text. True"]
          p s1 s2 s3 s4 by simp
qed

theorem detect_format_rule_order_counterexample:
  "py_lower (path_suffix ''dump.txt'') \<notin> set [''.csv'', ''.jsonl'', ''.ndjson'', ''.log'', ''.sql'']
   \<and> content_rules_spec_order (\<lambda>text. False) (''INSERT INTO t (a,b) VALUES (1,2);'' @ [CHR 0x0A]) = SQL
   \<and> detect_format (\<lambda>text. False) ''dump.txt'' (Some (''INSERT INTO t (a,b) VALUES (1,2);'' @ [CHR 0x0A])) = CSV"
  by code_simp

section \<open>Properties of the SQL value decoder\<close>

lemma upper_char_inv:
  assumes "upper_char c = u" and "ord u + 32 = ord l"
  shows "c = u \<or> c = l"
proof (cases "97 \<le> ord c \<and> ord c \<le> 122")
  case True
  have u: "u = char_of (ord c - 32)" using assms(1) True by (simp add: upper_char_def)
  have small: "ord c - 32 < 256" using True by arith
  have "ord u = (ord c - 32) mod 256" unfolding u ord_def by simp
  also have "\<dots> = ord c - 32" using small by simp
  finally have "ord u + 32 = ord c" using True by simp
  then have "(of_char c :: nat) = of_char l" using assms(2) by (simp add: ord_def)
  then have "c = l" by (metis char_of_char)
  then show ?thesis by simp
next
  case False
  then show ?thesis using assms(1) by (auto simp: upper_char_def)
qed

lemma py_upper_TRUE:
  assumes "py_upper t = ''TRUE''"
  shows "t \<in> set (product_lists [''Tt'', ''Rr'', ''Uu'', ''Ee''])"
proof -
  from assms obtain a b c d where t: "t = [a, b, c, d]"
    and u: "upper_char a = CHR ''T''" "upper_char b = CHR ''R''" "upper_char c = CHR ''U''"
           "upper_char d = CHR ''E''"
    by (auto simp: py_upper_def)
  have "a = CHR ''T'' \<or> a = CHR ''t''" by (rule upper_char_inv[OF u(1)]) (simp add: ord_def)
  moreover have "b = CHR ''R'' \<or> b = CHR ''r''" by (rule upper_char_inv[OF u(2)]) (simp add: ord_def)
  moreover have "c = CHR ''U'' \<or> c = CHR ''u''" by (rule upper_char_inv[OF u(3)]) (simp add: ord_def)
  moreover have "d = CHR ''E'' \<or> d = CHR ''e''" by (rule upper_char_inv[OF u(4)]) (simp add: ord_def)
  ultimately show ?thesis unfolding t product_lists_set by simp
qed

lemma py_upper_FALSE:
  assumes "py_upper t = ''FALSE''"
  shows "t \<in> set (product_lists [''Ff'', ''Aa'', ''Ll'', ''Ss'', ''Ee''])"
proof -
  from assms obtain a b c d e where t: "t = [a, b, c, d, e]"
    and u: "upper_char a = CHR ''F''" "upper_char b = CHR ''A''" "upper_char c = CHR ''L''"
           "upper_char d = CHR ''S''" "upper_char e = CHR ''E''"
    by (auto simp: py_upper_def)
  have "a = CHR ''F'' \<or> a = CHR ''f''" by (rule upper_char_inv[OF u(1)]) (simp add: ord_def)
  moreover have "b = CHR ''A'' \<or> b = CHR ''a''" by (rule upper_char_inv[OF u(2)]) (simp add: ord_def)
  moreover have "c = CHR ''L'' \<or> c = CHR ''l''" by (rule upper_char_inv[OF u(3)]) (simp add: ord_def)
  moreover have "d = CHR ''S'' \<or> d = CHR ''s''" by (rule upper_char_inv[OF u(4)]) (simp add: ord_def)
  moreover have "e = CHR ''E'' \<or> e = CHR ''e''" by (rule upper_char_inv[OF u(5)]) (simp add: ord_def)
  ultimately show ?thesis unfolding t product_lists_set by simp
qed

lemma no_float_TRUE: "\<forall>t \<in> set (product_lists [''Tt'', ''Rr'', ''Uu'', ''Ee'']). py_float t = None"
  by code_simp

lemma no_float_FALSE: "\<forall>t \<in> set (product_lists [''Ff'', ''Aa'', ''Ll'', ''Ss'', ''Ee'']). py_float t = None"
  by code_simp

lemma py_float_not_boolean_word:
  assumes "py_float t = Some f"
  shows "py_upper t \<notin> set [''TRUE'', ''FALSE'']"
proof
  assume "py_upper t \<in> set [''TRUE'', ''FALSE'']"
  then consider "py_upper t = ''TRUE''" | "py_upper t = ''FALSE''" by auto
  then have "py_float t = None"
  proof cases
    case 1
    then show ?thesis using py_upper_TRUE no_float_TRUE by blast
  next
    case 2
    then show ?thesis using py_upper_FALSE no_float_FALSE by blast
  qed
  then show False using assms by simp
qed

text \<open>
Claim C5, as amended. The SQL-dump reader decodes a value token, after trimming, as
  follows: \<open>NULL\<close> in any letter case is null; a single- or double-quoted token is the
  unquoted text with the two escapes undone; otherwise a token that contains a decimal
  point is tried as a float only, and a token without a decimal point is tried as an
  integer only; a token that is neither is a boolean for \<open>TRUE\<close> or \<open>FALSE\<close> in any
  letter case, and else the raw token as text. So an unquoted token without a decimal
  point that parses as a float but not as an integer (exponent notation such as \<open>1e5\<close>)
  decodes to text.
\<close>

theorem parse_value_decoding:
  "(py_upper (py_strip raw) = ''NULL'' \<longrightarrow> parse_value raw = VNone)
   \<and> (py_upper (py_strip raw) \<noteq> ''NULL'' \<and> is_quoted (py_strip raw)
        \<longrightarrow> parse_value raw = VStr (unquote (py_strip raw)))
   \<and> (py_upper (py_strip raw) \<noteq> ''NULL'' \<and> \<not> is_quoted (py_strip raw) \<longrightarrow>
        (CHR ''.'' \<in> set (py_strip raw) \<and> py_float (py_strip raw) = Some f \<longrightarrow> parse_value raw = VFloat f)
      \<and> (CHR ''.'' \<notin> set (py_strip raw) \<and> py_int (py_strip raw) = Some i \<longrightarrow> parse_value raw = VInt i)
      \<and> (CHR ''.'' \<notin> set (py_strip raw) \<and> py_int (py_strip raw) = None \<and> py_float (py_strip raw) = Some f
            \<longrightarrow> parse_value raw = VStr (py_strip raw))
      \<and> (parse_number (py_strip raw) = None \<and> py_upper (py_strip raw) \<in> set [''TRUE'', ''FALSE'']
            \<longrightarrow> parse_value raw = VBool (py_upper (py_strip raw) = ''TRUE''))
      \<and> (parse_number (py_strip raw) = None \<and> py_upper (py_strip raw) \<notin> set [''TRUE'', ''FALSE'']
            \<longrightarrow> parse_value raw = VStr (py_strip raw)))"
  using py_float_not_boolean_word[of "py_strip raw" f]
  by (auto simp: parse_value_def parse_number_def Let_def)

theorem parse_value_decoding_witness:
  "parse_value ''1e5'' = VStr ''1e5''
   \<and> parse_value '' 2.5e1'' = VFloat (FFin 25)
   \<and> parse_value ''42'' = VInt 42
   \<and> parse_value ''null'' = VNone"
proof -
  have e: "py_strip ''1e5'' = ''1e5''" "py_upper ''1e5'' \<noteq> ''NULL''" "\<not> is_quoted ''1e5''"
    "CHR ''.'' \<notin> set ''1e5''" "py_int ''1e5'' = None" "py_float ''1e5'' = Some (FFin 100000)"
    by code_simp+
  have f: "py_strip '' 2.5e1'' = ''2.5e1''" "py_upper ''2.5e1'' \<noteq> ''NULL''" "\<not> is_quoted ''2.5e1''"
    "CHR ''.'' \<in> set ''2.5e1''" "py_float ''2.5e1'' = Some (FFin 25)"
    by code_simp+
  have i: "py_strip ''42'' = ''42''" "py_upper ''42'' \<noteq> ''NULL''" "\<not> is_quoted ''42''"
    "CHR ''.'' \<notin> set ''42''" "py_int ''42'' = Some 42"
    by code_simp+
  have n: "py_upper (py_strip ''null'') = ''NULL''" by code_simp
  have 1: "parse_value ''1e5'' = VStr ''1e5''"
    using parse_value_decoding[of "''1e5''" "FFin 100000" 0] unfolding e(1) using e by blast
  have 2: "parse_value '' 2.5e1'' = VFloat (FFin 25)"
    using parse_value_decoding[of "'' 2.5e1''" "FFin 25" 0] unfolding f(1) using f by blast
  have 3: "parse_value ''42'' = VInt 42"
    using parse_value_decoding[of "''42''" FNaN 42] unfolding i(1) using i by blast
  have 4: "parse_value ''null'' = VNone"
    using parse_value_decoding[of "''null''" FNaN 0] n by blast
  show ?thesis using 1 2 3 4 by simp
qed

theorem parse_value_exponent_counterexample:
  "\<not> is_quoted ''1e5'' \<and> py_int ''1e5'' = None \<and> py_float ''1e5'' = Some (FFin 100000)
   \<and> parse_value ''1e5'' = VStr ''1e5''
   \<and> parse_value_int_then_float ''1e5'' = VFloat (FFin 100000)"
  by code_simp

section \<open>Properties of the privacy rules\<close>

lemma row_set_keys: "row_has r c \<Longrightarrow> map fst (row_set r c v) = map fst r"
  by (induction r c v rule: row_set.induct) (auto simp: row_has_def)

lemma row_set_map_of: "map_of (row_set r c v) = (map_of r)(c \<mapsto> v)"
  by (induction r c v rule: row_set.induct) (auto simp: fun_eq_iff)

lemma rule_effect_frame:
  assumes "rule_effect L r rule = Inr r'"
  shows "map fst r' = map fst r \<and> (\<forall>c. c \<noteq> column rule \<longrightarrow> map_of r' c = map_of r c)"
  using assms
  by (auto simp: rule_effect_def row_set_keys row_set_map_of split: if_splits sum.splits)

lemma rules_effect_frame:
  "rules_effect L r rules = Inr r' \<Longrightarrow>
     map fst r' = map fst r \<and> (\<forall>c. c \<notin> column ` set rules \<longrightarrow> map_of r' c = map_of r c)"
proof (induction rules arbitrary: r)
  case Nil
  then show ?case by simp
next
  case (Cons rule rules)
  then obtain r1 where s: "rule_effect L r rule = Inr r1"
    and t: "rules_effect L r1 rules = Inr r'"
    by (auto split: sum.splits)
  from rule_effect_frame[OF s] Cons.IH[OF t] show ?case by auto
qed

lemma rules_effect_absent:
  "\<forall>rule \<in> set rules. \<not> row_has r (column rule) \<Longrightarrow> rules_effect L r rules = Inr r"
  by (induction rules) (auto simp: rule_effect_def)

lemma mask_loop_refines:
  "mask_loop L h m rules = (res, h') \<Longrightarrow> m < length h \<Longrightarrow>
     length h' = length h \<and> (\<forall>i. i \<noteq> m \<longrightarrow> h' ! i = h ! i)
     \<and> (case res of
           None \<Rightarrow> rules_effect L (h ! m) rules = Inr (h' ! m)
         | Some e \<Rightarrow> rules_effect L (h ! m) rules = Inl e)"
proof (induction rules arbitrary: h)
  case Nil
  then show ?case by auto
next
  case (Cons rule rules)
  show ?case
  proof (cases "row_has (h ! m) (column rule)")
    case False
    then have "mask_loop L h m rules = (res, h')" using Cons.prems(1) by simp
    from Cons.IH[OF this Cons.prems(2)] show ?thesis using False
      by (auto simp: rule_effect_def split: option.splits)
  next
    case True
    show ?thesis
    proof (cases "apply_mask L (row_get (h ! m) (column rule)) (mask_type rule) (rule_params rule)")
      case (Inl e)
      then show ?thesis using True Cons.prems by (auto simp: rule_effect_def)
    next
      case (Inr mv)
      define h1 where "h1 = h[m := row_set (h ! m) (column rule) mv]"
      have l: "mask_loop L h1 m rules = (res, h')"
        using Cons.prems(1) True Inr by (simp add: h1_def)
      have m1: "m < length h1" using Cons.prems(2) by (simp add: h1_def)
      have step: "rule_effect L (h ! m) rule = Inr (h1 ! m)"
        using True Inr Cons.prems(2) by (simp add: rule_effect_def h1_def)
      from Cons.IH[OF l m1] show ?thesis
        using step Cons.prems(2) by (auto simp: h1_def split: option.splits)
    qed
  qed
qed

lemma apply_privacy_rules_result:
  assumes "row < length h"
  obtains res h' where "apply_privacy_rules L h row rules = (res, h')"
    and "length h' = Suc (length h)" and "take (length h) h' = h"
    and "case res of
           Inr new \<Rightarrow> new = length h \<and> rules_effect L (h ! row) rules = Inr (h' ! new)
         | Inl e \<Rightarrow> rules_effect L (h ! row) rules = Inl e"
proof (cases "rules = []")
  case True
  have "apply_privacy_rules L h row rules = (Inr (length h), h @ [h ! row])"
    using True by (simp add: apply_privacy_rules_def dict_copy_def)
  then show ?thesis using that[of "Inr (length h)" "h @ [h ! row]"] True by simp
next
  case False
  define h1 where "h1 = h @ [h ! row]"
  obtain r h2 where l: "mask_loop L h1 (length h) rules = (r, h2)"
    by (cases "mask_loop L h1 (length h) rules") auto
  have m: "length h < length h1" by (simp add: h1_def)
  from mask_loop_refines[OF l m] have
    len: "length h2 = length h1"
    and same: "\<forall>i. i \<noteq> length h \<longrightarrow> h2 ! i = h1 ! i"
    and eff: "case r of
                None \<Rightarrow> rules_effect L (h1 ! length h) rules = Inr (h2 ! length h)
              | Some e \<Rightarrow> rules_effect L (h1 ! length h) rules = Inl e"
    by auto
  have src: "h1 ! length h = h ! row" by (simp add: h1_def)
  have pre: "take (length h) h2 = h"
  proof (rule nth_equalityI)
    show "length (take (length h) h2) = length h" using len by (simp add: h1_def)
  next
    fix i assume "i < length (take (length h) h2)"
    then have i: "i < length h" by simp
    then have "h2 ! i = h1 ! i" using same by simp
    then show "take (length h) h2 ! i = h ! i" using i by (simp add: h1_def nth_append)
  qed
  have run: "apply_privacy_rules L h row rules =
               ((case r of Some e \<Rightarrow> Inl e | None \<Rightarrow> Inr (length h)), h2)"
    using False l by (simp add: apply_privacy_rules_def dict_copy_def h1_def split: option.splits)
  show ?thesis
    using that[OF run _ pre] len eff src by (cases r) (simp_all add: h1_def)
qed

text \<open>
Claim C7, as amended. For every store, every row of it and every list of privacy rules,
  \<open>apply_privacy_rules\<close> leaves the source row and every other row of the store as they
  were, and allocates one new row, the copy. The call does not return for every list of
  rules: it raises exactly when one of the masks raises on the way, taking the rules one
  after the other in the configured order, and then the exception is that of the first
  mask that fails. Otherwise it returns the new row; the new row has the columns of the
  source row in the same order, every column that no rule names holds the source row's
  value, and the new row is the result of the rules taken one after the other in the
  configured order, each replacing only its own column. Rules that name columns absent
  from the row change nothing: with such rules only, the call returns a new row equal to
  the source row.
\<close>

theorem apply_privacy_rules_frame:
  assumes "row < length h"
  shows "\<exists>res h'. apply_privacy_rules L h row rules = (res, h')
     \<and> take (length h) h' = h
     \<and> length h' = Suc (length h)
     \<and> (\<forall>e. res = Inl e \<longleftrightarrow> rules_effect L (h ! row) rules = Inl e)
     \<and> (\<forall>new. res = Inr new \<longrightarrow>
          new = length h
          \<and> rules_effect L (h ! row) rules = Inr (h' ! new)
          \<and> map fst (h' ! new) = map fst (h ! row)
          \<and> (\<forall>c. c \<notin> column ` set rules \<longrightarrow> map_of (h' ! new) c = map_of (h ! row) c))
     \<and> ((\<forall>rule \<in> set rules. \<not> row_has (h ! row) (column rule))
          \<longrightarrow> res = Inr (length h) \<and> h' ! length h = h ! row)"
proof -
  from apply_privacy_rules_result[OF assms, of L rules] obtain res h' where
    run: "apply_privacy_rules L h row rules = (res, h')"
    and len: "length h' = Suc (length h)" and pre: "take (length h) h' = h"
    and eff: "case res of
           Inr new \<Rightarrow> new = length h \<and> rules_effect L (h ! row) rules = Inr (h' ! new)
         | Inl e \<Rightarrow> rules_effect L (h ! row) rules = Inl e"
    by blast
  have err: "\<forall>e. res = Inl e \<longleftrightarrow> rules_effect L (h ! row) rules = Inl e"
    using eff by (cases res) auto
  have ok: "\<forall>new. res = Inr new \<longrightarrow>
          new = length h
          \<and> rules_effect L (h ! row) rules = Inr (h' ! new)
          \<and> map fst (h' ! new) = map fst (h ! row)
          \<and> (\<forall>c. c \<notin> column ` set rules \<longrightarrow> map_of (h' ! new) c = map_of (h ! row) c)"
  proof (intro allI impI)
    fix new assume r: "res = Inr new"
    then have a: "new = length h" and b: "rules_effect L (h ! row) rules = Inr (h' ! new)"
      using eff by auto
    from rules_effect_frame[OF b] show "new = length h
          \<and> rules_effect L (h ! row) rules = Inr (h' ! new)
          \<and> map fst (h' ! new) = map fst (h ! row)
          \<and> (\<forall>c. c \<notin> column ` set rules \<longrightarrow> map_of (h' ! new) c = map_of (h ! row) c)"
      using a b by blast
  qed
  have absent: "(\<forall>rule \<in> set rules. \<not> row_has (h ! row) (column rule))
          \<longrightarrow> res = Inr (length h) \<and> h' ! length h = h ! row"
  proof
    assume "\<forall>rule \<in> set rules. \<not> row_has (h ! row) (column rule)"
    then have "rules_effect L (h ! row) rules = Inr (h ! row)"
      by (rule rules_effect_absent)
    then show "res = Inr (length h) \<and> h' ! length h = h ! row"
      using eff by (cases res) auto
  qed
  show ?thesis using run pre len err ok absent by blast
qed

theorem apply_privacy_rules_frame_witness:
  "(0::nat) < length [[(''id'', VInt 1), (''email'', VStr ''a@b'')]]
   \<and> apply_privacy_rules example_lib [[(''id'', VInt 1), (''email'', VStr ''a@b'')]] 0
        [example_rule ''email'' ''redact'', example_rule ''phone'' ''hash'', example_rule ''email'' ''truncate'']
      = (Inr 1, [[(''id'', VInt 1), (''email'', VStr ''a@b'')], [(''id'', VInt 1), (''email'', VStr ''[RED...'')]])
   \<and> rules_effect example_lib [(''id'', VInt 1), (''email'', VStr ''a@b'')]
        [example_rule ''email'' ''redact'', example_rule ''phone'' ''hash'', example_rule ''email'' ''truncate'']
      = Inr [(''id'', VInt 1), (''email'', VStr ''[RED...'')]"
proof -
  have l: "(0::nat) < length [[(''id'', VInt 1), (''email'', VStr ''a@b'')]]" by simp
  have v: "apply_privacy_rules example_lib [[(''id'', VInt 1), (''email'', VStr ''a@b'')]] 0
        [example_rule ''email'' ''redact'', example_rule ''phone'' ''hash'', example_rule ''email'' ''truncate'']
      = (Inr 1, [[(''id'', VInt 1), (''email'', VStr ''a@b'')], [(''id'', VInt 1), (''email'', VStr ''[RED...'')]])"
    by code_simp
  from apply_privacy_rules_frame[OF l, of example_lib
      "[example_rule ''email'' ''redact'', example_rule ''phone'' ''hash'', example_rule ''email'' ''truncate'']"]
  show ?thesis using l v by simp
qed

theorem apply_privacy_rules_raises_counterexample:
  "apply_privacy_rules example_lib [[(''id'', VInt 1), (''email'', VStr ''a@b'')]] 0
        [example_rule ''id'' ''redact'', example_rule ''email'' ''scramble'']
      = (Inl ValueError,
         [[(''id'', VInt 1), (''email'', VStr ''a@b'')], [(''id'', VStr ''[REDACTED]''), (''email'', VStr ''a@b'')]])"
  by code_simp

section \<open>Properties of the mask kinds\<close>

lemma apply_mask_unknown:
  "mask_kind \<notin> {''hash'', ''redact'', ''truncate'', ''bucket''} \<Longrightarrow>
     apply_mask L v mask_kind params = Inl ValueError"
  by (simp add: apply_mask_def)

lemma apply_mask_redact: "apply_mask L v ''redact'' params = Inr (params_get params ''token'' (VStr ''[REDACTED]''))"
  by (simp add: apply_mask_def redact_mask_def)

lemma apply_mask_hash:
  "apply_mask L v ''hash'' params =
     (if v = VNone then Inr (VStr [])
      else if params_get params ''algorithm'' (VStr ''sha256'') \<in> VStr ` {''sha256'', ''sha1'', ''md5''}
      then (case params_get params ''algorithm'' (VStr ''sha256'') of
              VStr a \<Rightarrow> map_sum id VStr (lib_hexdigest L a (py_str (lib_frepr L) v))
            | _ \<Rightarrow> Inl ValueError)
      else Inl ValueError)"
  by (auto simp: apply_mask_def hash_mask_def Let_def)

lemma py_float_of_errors: "py_float_of v = Inl e \<Longrightarrow> e \<in> {ValueError, TypeError, OverflowError}"
  by (cases v) (auto simp: float_of_int_def split: if_splits option.splits)

lemma bucket_mask_not_a_number:
  "py_float_of v = Inl e \<Longrightarrow> e \<noteq> OverflowError \<Longrightarrow> bucket_mask L v bsize = Inr []"
  using py_float_of_errors[of v e]
  by (auto simp: bucket_mask_def caught_by_bucket_mask_def)

lemma bucket_mask_propagates:
  "v \<noteq> VNone \<Longrightarrow> py_float_of v = Inr x \<Longrightarrow> lib_bucket_label L x bsize = Inl e \<Longrightarrow>
     \<not> caught_by_bucket_mask e \<Longrightarrow> bucket_mask L v bsize = Inl e"
  by (simp add: bucket_mask_def)

lemma truncate_mask_not_a_number:
  "v \<noteq> VNone \<Longrightarrow> \<not> is_int_or_float max_len \<Longrightarrow> truncate_mask L v max_len = Inl TypeError"
  by (cases max_len) (simp_all add: truncate_mask_def Let_def)

text \<open>
Claim C6, as amended. Constructing a privacy rule checks nothing: a rule of any mask kind
  is constructed, so an unknown kind is not rejected at rule-construction time. The mask
  kind is looked at by \<open>apply_mask\<close> when the rule is applied to a value at row time: an
  unknown kind raises \<open>ValueError\<close> there, for every value and all parameters, and
  \<open>apply_privacy_rules\<close> raises it on a row that holds the rule's column. Applying an
  already-constructed rule can therefore fail at row time.
\<close>

theorem mask_kind_checked_at_row_time:
  "PrivacyRule_init col kind params = Inr \<lparr> column = col, mask_type = kind, rule_params = params \<rparr>
   \<and> (kind \<notin> {''hash'', ''redact'', ''truncate'', ''bucket''} \<longrightarrow>
        apply_mask L v kind params = Inl ValueError
        \<and> (row < length h \<and> row_has (h ! row) col \<longrightarrow>
             fst (apply_privacy_rules L h row
                    [\<lparr> column = col, mask_type = kind, rule_params = params \<rparr>]) = Inl ValueError))"
proof (intro conjI impI)
  show "PrivacyRule_init col kind params = Inr \<lparr> column = col, mask_type = kind, rule_params = params \<rparr>"
    by (simp add: PrivacyRule_init_def)
next
  assume "kind \<notin> {''hash'', ''redact'', ''truncate'', ''bucket''}"
  then show "apply_mask L v kind params = Inl ValueError" by (rule apply_mask_unknown)
next
  assume k: "kind \<notin> {''hash'', ''redact'', ''truncate'', ''bucket''}"
    and r: "row < length h \<and> row_has (h ! row) col"
  have "apply_mask L (row_get (h ! row) col) kind params = Inl ValueError"
    using k by (rule apply_mask_unknown)
  then have eff: "rules_effect L (h ! row) [\<lparr> column = col, mask_type = kind, rule_params = params \<rparr>]
          = Inl ValueError"
    using r by (simp add: rule_effect_def)
  from r have "row < length h" by simp
  from apply_privacy_rules_result[OF this, of L "[\<lparr> column = col, mask_type = kind, rule_params = params \<rparr>]"]
  obtain res h' where
    run: "apply_privacy_rules L h row [\<lparr> column = col, mask_type = kind, rule_params = params \<rparr>] = (res, h')"
    and c: "case res of
           Inr new \<Rightarrow> new = length h \<and> rules_effect L (h ! row) [\<lparr> column = col, mask_type = kind, rule_params = params \<rparr>] = Inr (h' ! new)
         | Inl e \<Rightarrow> rules_effect L (h ! row) [\<lparr> column = col, mask_type = kind, rule_params = params \<rparr>] = Inl e"
    by blast
  have "res = Inl ValueError" using c eff by (cases res) auto
  then show "fst (apply_privacy_rules L h row
                    [\<lparr> column = col, mask_type = kind, rule_params = params \<rparr>]) = Inl ValueError"
    using run by simp
qed

theorem mask_kind_checked_at_row_time_witness:
  "''scramble'' \<notin> {''hash'', ''redact'', ''truncate'', ''bucket''}
   \<and> (0::nat) < length [[(''email'', VStr ''a@b'')]] \<and> row_has ([[(''email'', VStr ''a@b'')]] ! 0) ''email''
   \<and> PrivacyRule_init ''email'' ''scramble'' no_params
        = Inr \<lparr> column = ''email'', mask_type = ''scramble'', rule_params = no_params \<rparr>
   \<and> apply_mask example_lib (VStr ''a@b'') ''scramble'' no_params = Inl ValueError
   \<and> fst (apply_privacy_rules example_lib [[(''email'', VStr ''a@b'')]] 0
            [\<lparr> column = ''email'', mask_type = ''scramble'', rule_params = no_params \<rparr>]) = Inl ValueError"
proof -
  have k: "''scramble'' \<notin> {''hash'', ''redact'', ''truncate'', ''bucket''}" by simp
  have r: "(0::nat) < length [[(''email'', VStr ''a@b'')]] \<and> row_has ([[(''email'', VStr ''a@b'')]] ! 0) ''email''"
    by (simp add: row_has_def)
  from mask_kind_checked_at_row_time[of "''email''" "''scramble''" no_params example_lib
      "VStr ''a@b''" 0 "[[(''email'', VStr ''a@b'')]]"] k r
  show ?thesis by blast
qed

theorem mask_kind_not_validated_counterexample:
  "PrivacyRule_init ''email'' ''scramble'' no_params = Inr (example_rule ''email'' ''scramble'')
   \<and> apply_mask example_lib (VStr ''a@b'') (mask_type (example_rule ''email'' ''scramble''))
        (rule_params (example_rule ''email'' ''scramble'')) = Inl ValueError"
  by code_simp

section \<open>Properties of the time-aware sampler\<close>

lemma time_sample_two_text_rows:
  assumes col: "key_columns config = Some (col # ks)" "col \<noteq> []"
    and tgt: "2 \<le> target_rows config"
    and nonnum: "py_float a = None" "py_float b = None"
  shows "time_sample R str_hash config g [[(col, VStr a)], [(col, VStr b)]] =
           (if str_hash b < str_hash a then Inr [[(col, VStr b)], [(col, VStr a)]]
            else Inr [[(col, VStr a)], [(col, VStr b)]])"
  using assms
  by (simp add: time_sample_def time_column_of_def get_timestamp_value_def row_has_def row_get_def
        sort_by_key_def Let_def)

text \<open>
Claim C1 says that with a seed the emitted rows are a function of the input and the
  configuration alone. The time-aware sampler breaks this on a time column that holds text
  which is not a number: it orders the rows by the interpreter's salted string hash. Here
  the same two rows, the same seeded configuration and the same generator state give the
  rows in one order under one salt and in the opposite order under another.
\<close>

theorem time_sample_depends_on_hash_salt:
  "time_sample low_rng (salted_hash 1) time_config 0 [[(''ts'', VStr ''mon'')], [(''ts'', VStr ''tue'')]]
     = Inr [[(''ts'', VStr ''mon'')], [(''ts'', VStr ''tue'')]]
   \<and> time_sample low_rng (salted_hash (- 1)) time_config 0 [[(''ts'', VStr ''mon'')], [(''ts'', VStr ''tue'')]]
     = Inr [[(''ts'', VStr ''tue'')], [(''ts'', VStr ''mon'')]]"
  by code_simp

section \<open>Properties of the outlier-aware sampler\<close>

text \<open>
  What the sampler does keep. After Phase 1 the statistics of every tracked column that
  holds a number name a row whose number has no number of the column below it, and a row
  whose number has none above it. When the outlier rows fit into the target, all of them
  are emitted, for any generator that keeps the contracts of \<open>sample\<close> and \<open>shuffle\<close>. On a
  column without a not-a-number these two rows carry the minimum and the maximum.
\<close>

lemma float_lt_irrefl: "\<not> float_lt x x"
  by (cases x) auto

lemma float_lt_trans: "float_lt x y \<Longrightarrow> float_lt y z \<Longrightarrow> float_lt x z"
  by (cases x; cases y; cases z) auto

lemma float_lt_asym: "float_lt x y \<Longrightarrow> \<not> float_lt y x"
  by (cases x; cases y) auto

lemma note_value_min:
  assumes "cell_value (rows ! k) c = Some v"
    and "smin st = None \<longrightarrow> (\<forall>j w. (j, c) \<in> S \<longrightarrow> cell_value (rows ! j) c \<noteq> Some w)"
    and "smin st \<noteq> None \<longrightarrow> good_min rows S c st"
  shows "good_min rows (insert (k, c) S) c (note_value st v k)"
proof (cases "smin st")
  case None
  have "smin (note_value st v k) = Some v" "min_row (note_value st v k) = Some k"
    using None by (auto simp: note_value_def Let_def)
  then show ?thesis
    unfolding good_min_def using assms(1,2) None float_lt_irrefl by auto
next
  case (Some m)
  then obtain i where g: "(i, c) \<in> S" "min_row st = Some i" "cell_value (rows ! i) c = Some m"
     "\<forall>j w. (j, c) \<in> S \<and> cell_value (rows ! j) c = Some w \<longrightarrow> \<not> float_lt w m"
    using assms(3) unfolding good_min_def by auto
  show ?thesis
  proof (cases "float_lt v m")
    case True
    have "smin (note_value st v k) = Some v" "min_row (note_value st v k) = Some k"
      using Some True by (auto simp: note_value_def Let_def)
    moreover have "\<not> float_lt w v" if "(j, c) \<in> S" "cell_value (rows ! j) c = Some w" for j w
      using g(4) that float_lt_trans[OF _ True] by blast
    ultimately show ?thesis
      unfolding good_min_def using assms(1) float_lt_irrefl by auto
  next
    case False
    have "smin (note_value st v k) = Some m" "min_row (note_value st v k) = Some i"
      using Some False g(2) by (auto simp: note_value_def Let_def)
    then show ?thesis
      unfolding good_min_def using assms(1) g False by auto
  qed
qed

lemma note_value_max:
  assumes "cell_value (rows ! k) c = Some v"
    and "smax st = None \<longrightarrow> (\<forall>j w. (j, c) \<in> S \<longrightarrow> cell_value (rows ! j) c \<noteq> Some w)"
    and "smax st \<noteq> None \<longrightarrow> good_max rows S c st"
  shows "good_max rows (insert (k, c) S) c (note_value st v k)"
proof (cases "smax st")
  case None
  have "smax (note_value st v k) = Some v" "max_row (note_value st v k) = Some k"
    using None by (auto simp: note_value_def Let_def)
  then show ?thesis
    unfolding good_max_def using assms(1,2) None float_lt_irrefl by auto
next
  case (Some m)
  then obtain i where g: "(i, c) \<in> S" "max_row st = Some i" "cell_value (rows ! i) c = Some m"
     "\<forall>j w. (j, c) \<in> S \<and> cell_value (rows ! j) c = Some w \<longrightarrow> \<not> float_lt m w"
    using assms(3) unfolding good_max_def by auto
  show ?thesis
  proof (cases "float_lt m v")
    case True
    have "smax (note_value st v k) = Some v" "max_row (note_value st v k) = Some k"
      using Some True by (auto simp: note_value_def Let_def float_gt_def)
    moreover have "\<not> float_lt v w" if "(j, c) \<in> S" "cell_value (rows ! j) c = Some w" for j w
      using g(4) that float_lt_trans[OF True] by blast
    ultimately show ?thesis
      unfolding good_max_def using assms(1) float_lt_irrefl by auto
  next
    case False
    have "smax (note_value st v k) = Some m" "max_row (note_value st v k) = Some i"
      using Some False g(2) by (auto simp: note_value_def Let_def float_gt_def)
    then show ?thesis
      unfolding good_max_def using assms(1) g False by auto
  qed
qed

lemma note_column_keys: "fst ` set (note_column d c v k) = insert c (fst ` set d)"
  by (induction d c v k rule: note_column.induct) auto

lemma note_column_distinct: "distinct (map fst d) \<Longrightarrow> distinct (map fst (note_column d c v k))"
proof (induction d c v k rule: note_column.induct)
  case (1 col v row_id)
  show ?case by simp
next
  case (2 key stats d col v row_id)
  then show ?case using note_column_keys[of d col v row_id] by (auto simp flip: set_map)
qed

lemma note_column_entries:
  assumes "distinct (map fst d)" and "(c', st') \<in> set (note_column d c v k)"
  shows "(c' \<noteq> c \<and> (c', st') \<in> set d)
       \<or> (c' = c \<and> (\<exists>st. (c, st) \<in> set d \<and> st' = note_value st v k))
       \<or> (c' = c \<and> c \<notin> fst ` set d \<and> st' = note_value new_col_stats v k)"
  using assms
proof (induction d c v k rule: note_column.induct)
  case (1 col v row_id)
  then show ?case by auto
next
  case (2 key stats d col v row_id)
  show ?case
  proof (cases "key = col")
    case True
    then show ?thesis using "2.prems" by (auto simp: rev_image_eqI)
  next
    case False
    then have "(c', st') = (key, stats) \<or> (c', st') \<in> set (note_column d col v row_id)"
      using "2.prems"(2) by simp
    then show ?thesis
    proof
      assume "(c', st') = (key, stats)"
      then show ?thesis using False by auto
    next
      assume m: "(c', st') \<in> set (note_column d col v row_id)"
      have "distinct (map fst d)" using "2.prems"(1) by simp
      from "2.IH"[OF False this m] show ?thesis using False by auto
    qed
  qed
qed

lemma good_min_other: "c' \<noteq> c \<Longrightarrow> good_min rows (insert (k, c) S) c' st = good_min rows S c' st"
  by (simp add: good_min_def)

lemma good_max_other: "c' \<noteq> c \<Longrightarrow> good_max rows (insert (k, c) S) c' st = good_max rows S c' st"
  by (simp add: good_max_def)

lemma good_min_smin: "good_min rows S c st \<Longrightarrow> smin st \<noteq> None"
  by (auto simp: good_min_def)

lemma good_max_smax: "good_max rows S c st \<Longrightarrow> smax st \<noteq> None"
  by (auto simp: good_max_def)

lemma stats_inv_note_column:
  assumes inv: "stats_inv rows S d" and val: "cell_value (rows ! k) c = Some v"
  shows "stats_inv rows (insert (k, c) S) (note_column d c v k)"
proof -
  have dist: "distinct (map fst d)" using inv by (simp add: stats_inv_def)
  have good: "\<And>c st. (c, st) \<in> set d \<Longrightarrow> good_min rows S c st \<and> good_max rows S c st"
    using inv by (simp add: stats_inv_def)
  have cover: "\<And>j c. (j, c) \<in> S \<Longrightarrow> cell_value (rows ! j) c \<noteq> None \<Longrightarrow> c \<in> fst ` set d"
    using inv by (simp add: stats_inv_def)
  have g: "good_min rows (insert (k, c) S) c' st' \<and> good_max rows (insert (k, c) S) c' st'"
    if m: "(c', st') \<in> set (note_column d c v k)" for c' st'
  proof -
    from note_column_entries[OF dist m] consider
      (other) "c' \<noteq> c" "(c', st') \<in> set d"
      | (old) st where "c' = c" "(c, st) \<in> set d" "st' = note_value st v k"
      | (new) "c' = c" "c \<notin> fst ` set d" "st' = note_value new_col_stats v k"
      by blast
    then show ?thesis
    proof cases
      case other
      then show ?thesis using good[OF other(2)] by (simp add: good_min_other good_max_other)
    next
      case old
      from good[OF old(2)] have gm: "good_min rows S c st" and gx: "good_max rows S c st" by auto
      have "good_min rows (insert (k, c) S) c (note_value st v k)"
        using note_value_min[OF val, of st S] gm good_min_smin[OF gm] by blast
      moreover have "good_max rows (insert (k, c) S) c (note_value st v k)"
        using note_value_max[OF val, of st S] gx good_max_smax[OF gx] by blast
      ultimately show ?thesis using old by simp
    next
      case new
      have none: "\<forall>j w. (j, c) \<in> S \<longrightarrow> cell_value (rows ! j) c \<noteq> Some w"
        using cover new(2) by (metis option.distinct(1))
      have "good_min rows (insert (k, c) S) c (note_value new_col_stats v k)"
        using note_value_min[OF val, of new_col_stats S] none by (simp add: new_col_stats_def)
      moreover have "good_max rows (insert (k, c) S) c (note_value new_col_stats v k)"
        using note_value_max[OF val, of new_col_stats S] none by (simp add: new_col_stats_def)
      ultimately show ?thesis using new by simp
    qed
  qed
  have cov: "c' \<in> fst ` set (note_column d c v k)"
    if "(j, c') \<in> insert (k, c) S" "cell_value (rows ! j) c' \<noteq> None" for j c'
    using that cover unfolding note_column_keys by auto
  show ?thesis
    unfolding stats_inv_def using note_column_distinct[OF dist] g cov by blast
qed

lemma stats_inv_no_value:
  assumes "stats_inv rows S d" and "cell_value (rows ! k) c = None"
  shows "stats_inv rows (insert (k, c) S) d"
proof -
  have "good_min rows (insert (k, c) S) c' st = good_min rows S c' st" for c' st
    using assms(2) unfolding good_min_def by (cases "c' = c") auto
  moreover have "good_max rows (insert (k, c) S) c' st = good_max rows S c' st" for c' st
    using assms(2) unfolding good_max_def by (cases "c' = c") auto
  moreover have "c' \<in> fst ` set d"
    if "(j, c') \<in> insert (k, c) S" "cell_value (rows ! j) c' \<noteq> None" for j c'
  proof -
    have "(j, c') \<in> S" using that assms(2) by auto
    then show ?thesis using assms(1) that(2) unfolding stats_inv_def by blast
  qed
  ultimately show ?thesis using assms(1) unfolding stats_inv_def by blast
qed

lemma check_columns_inv:
  "check_columns cs (rows ! k) k d = Inr d' \<Longrightarrow> stats_inv rows S d \<Longrightarrow>
     stats_inv rows (S \<union> {k} \<times> set cs) d'"
proof (induction cs arbitrary: d S)
  case Nil
  then show ?case by simp
next
  case (Cons c cs)
  have step: "\<exists>d1. stats_inv rows (insert (k, c) S) d1 \<and> check_columns cs (rows ! k) k d1 = Inr d'"
  proof (cases "row_has (rows ! k) c")
    case False
    then have "cell_value (rows ! k) c = None" by (simp add: cell_value_def)
    from stats_inv_no_value[OF Cons.prems(2) this] show ?thesis using Cons.prems(1) False by auto
  next
    case True
    show ?thesis
    proof (cases "get_numeric_value (row_get (rows ! k) c)")
      case (Inl e)
      then show ?thesis using Cons.prems(1) True by simp
    next
      case (Inr ov)
      show ?thesis
      proof (cases ov)
        case None
        then have "cell_value (rows ! k) c = None" using True Inr by (simp add: cell_value_def)
        from stats_inv_no_value[OF Cons.prems(2) this] show ?thesis
          using Cons.prems(1) True Inr None by auto
      next
        case (Some v)
        then have "cell_value (rows ! k) c = Some v" using True Inr by (simp add: cell_value_def)
        from stats_inv_note_column[OF Cons.prems(2) this] show ?thesis
          using Cons.prems(1) True Inr Some by auto
      qed
    qed
  qed
  then obtain d1 where a: "stats_inv rows (insert (k, c) S) d1" and b: "check_columns cs (rows ! k) k d1 = Inr d'"
    by blast
  have "insert (k, c) S \<union> {k} \<times> set cs = S \<union> {k} \<times> set (c # cs)" by auto
  then show ?case using Cons.IH[OF b a] by simp
qed

lemma collect_column_stats_inv:
  "collect_column_stats cols (drop k rows) k d = Inr d' \<Longrightarrow> stats_inv rows S d \<Longrightarrow>
     stats_inv rows (S \<union> {k..<length rows} \<times> set cols) d'"
proof (induction "length rows - k" arbitrary: k d S)
  case 0
  then have "drop k rows = []" by simp
  then show ?case using 0 by simp
next
  case (Suc n)
  then have kl: "k < length rows" by simp
  then have dr: "drop k rows = rows ! k # drop (Suc k) rows" by (simp add: Cons_nth_drop_Suc)
  from Suc.prems(1) obtain d1 where
    c1: "check_columns cols (rows ! k) k d = Inr d1"
    and c2: "collect_column_stats cols (drop (Suc k) rows) (Suc k) d1 = Inr d'"
    unfolding dr by (auto split: sum.splits)
  have i1: "stats_inv rows (S \<union> {k} \<times> set cols) d1" by (rule check_columns_inv[OF c1 Suc.prems(2)])
  have n: "n = length rows - Suc k" using Suc.hyps(2) by simp
  have e: "S \<union> {k} \<times> set cols \<union> {Suc k..<length rows} \<times> set cols = S \<union> {k..<length rows} \<times> set cols"
    using kl by auto
  from Suc.hyps(1)[OF n c2 i1] show ?case unfolding e .
qed

lemma stats_inv_empty: "stats_inv rows {} []"
  by (simp add: stats_inv_def)

lemma add_outlier_set: "set (add_outlier cand acc) = set acc \<union> (case cand of None \<Rightarrow> {} | Some i \<Rightarrow> {i})"
  by (auto simp: add_outlier_def split: option.splits)

lemma collect_outliers_set:
  "set (collect_outliers d acc) =
     set acc \<union> {i. \<exists>c st. (c, st) \<in> set d \<and> (min_row st = Some i \<or> max_row st = Some i)}"
proof (induction d acc rule: collect_outliers.induct)
  case (1 acc)
  show ?case by simp
next
  case (2 col stats d acc)
  show ?case unfolding collect_outliers.simps "2.IH" add_outlier_set
    by (auto split: option.splits)
qed

lemma rng_shuffle_perm:
  assumes "shuffle_ok R" and "rng_shuffle R g xs = (ys, g')"
  shows "set ys = set xs \<and> length ys = length xs"
proof -
  obtain perm g1 where p: "shuffle_perm R g (length xs) = (perm, g1)"
    by (cases "shuffle_perm R g (length xs)") auto
  have l: "length perm = length xs" and st: "set perm = {..<length xs}"
    using assms(1) p unfolding shuffle_ok_def by (metis fst_conv)+
  have ys: "ys = map (\<lambda>i. xs ! i) perm" using assms(2) p by (simp add: rng_shuffle_def)
  have "set ys = (\<lambda>i. xs ! i) ` {..<length xs}" unfolding ys using st by simp
  also have "\<dots> = set xs" by (auto simp: set_conv_nth)
  finally show ?thesis using l ys by simp
qed

lemma rng_sample_returns:
  assumes "sample_ok R" and "0 \<le> k" and "k \<le> int (length population)"
  shows "\<exists>out g'. rng_sample R g population k = Inr (out, g') \<and> int (length out) = k"
proof -
  obtain idxs g1 where p: "sample_idx R g (length population) (nat k) = (idxs, g1)"
    by (cases "sample_idx R g (length population) (nat k)") auto
  have "nat k \<le> length population" using assms(2,3) by simp
  then have "length idxs = nat k" using assms(1) p unfolding sample_ok_def by (metis fst_conv)
  then show ?thesis using assms(2,3) p by (simp add: rng_sample_def)
qed

lemma sample_remaining_returns:
  assumes "sample_ok R" and "int (length outs) \<le> T"
  shows "\<exists>chosen g1. sample_remaining R g T n outs = Inr (chosen, g1)
           \<and> set outs \<subseteq> set chosen \<and> int (length chosen) \<le> T"
proof -
  define non where "non = filter (\<lambda>row_id. row_id \<notin> set outs) [0..<n]"
  show ?thesis
  proof (cases "0 < T - int (length outs) \<and> non \<noteq> []")
    case True
    define k where "k = min (T - int (length outs)) (int (length non))"
    have "0 \<le> k" "k \<le> int (length non)" using True by (auto simp: k_def)
    from rng_sample_returns[OF assms(1) this, of g] obtain sampled g1 where
      s: "rng_sample R g non k = Inr (sampled, g1)" "int (length sampled) = k" by blast
    have "int (length (outs @ sampled)) \<le> T" using s(2) by (simp add: k_def)
    moreover have "sample_remaining R g T n outs = Inr (outs @ sampled, g1)"
      using True s(1) unfolding sample_remaining_def Let_def non_def[symmetric] k_def[symmetric]
      by simp
    ultimately show ?thesis by auto
  next
    case False
    then have "sample_remaining R g T n outs = Inr (outs, g)"
      unfolding sample_remaining_def Let_def non_def[symmetric] by auto
    then show ?thesis using assms(2) by auto
  qed
qed

lemma outlier_sample_ids_holds_outliers:
  assumes ok: "sample_ok R" "shuffle_ok R"
    and stats: "collect_column_stats (columns_to_check_of config columns) rows 0 [] = Inr column_stats"
    and pos: "1 \<le> target_rows config"
    and big: "target_rows config < int (length rows)"
    and fits: "int (length (collect_outliers column_stats [])) \<le> target_rows config"
  shows "\<exists>ids. outlier_sample_ids R config g columns rows = Inr ids
           \<and> set (collect_outliers column_stats []) \<subseteq> set ids"
proof -
  define T where "T = target_rows config"
  define outs where "outs = collect_outliers column_stats []"
  have ne: "rows \<noteq> []" using big pos by auto
  from sample_remaining_returns[OF ok(1), of outs T g "length rows"] fits obtain chosen g1 where
    c: "sample_remaining R g T (length rows) outs = Inr (chosen, g1)"
    and sub: "set outs \<subseteq> set chosen" and len: "int (length chosen) \<le> T"
    unfolding T_def outs_def by blast
  obtain shuffled g2 where sh: "rng_shuffle R g1 chosen = (shuffled, g2)"
    by (cases "rng_shuffle R g1 chosen") auto
  from rng_shuffle_perm[OF ok(2) sh] have ps: "set shuffled = set chosen" "length shuffled = length chosen"
    by auto
  have tk: "take (nat T) shuffled = shuffled" using len ps(2) by simp
  have "outlier_sample_ids R config g columns rows = Inr (take (nat T) shuffled)"
    unfolding outlier_sample_ids_def Let_def
    using stats ne big c sh
    by (simp add: T_def[symmetric] outs_def[symmetric])
  then show ?thesis using tk ps(1) sub by (auto simp: outs_def)
qed

lemma outlier_sample_keeps_extremes:
  assumes ok: "sample_ok R" "shuffle_ok R"
    and stats: "collect_column_stats (columns_to_check_of config columns) rows 0 [] = Inr column_stats"
    and pos: "1 \<le> target_rows config"
    and big: "target_rows config < int (length rows)"
    and fits: "int (length (collect_outliers column_stats [])) \<le> target_rows config"
    and tracked: "c \<in> set (columns_to_check_of config columns)"
    and some: "j0 < length rows" "cell_value (rows ! j0) c \<noteq> None"
  shows "\<exists>ids. outlier_sample_ids R config g columns rows = Inr ids
     \<and> (\<exists>i \<in> set ids. \<exists>m. i < length rows \<and> cell_value (rows ! i) c = Some m
            \<and> (\<forall>j w. j < length rows \<and> cell_value (rows ! j) c = Some w \<longrightarrow> \<not> float_lt w m))
     \<and> (\<exists>i \<in> set ids. \<exists>m. i < length rows \<and> cell_value (rows ! i) c = Some m
            \<and> (\<forall>j w. j < length rows \<and> cell_value (rows ! j) c = Some w \<longrightarrow> \<not> float_lt m w))"
proof -
  define S where "S = {0..<length rows} \<times> set (columns_to_check_of config columns)"
  have inv: "stats_inv rows S column_stats"
    using collect_column_stats_inv[of "columns_to_check_of config columns" 0 rows "[]" column_stats "{}"]
      stats stats_inv_empty by (simp add: S_def)
  have inS: "(j, c) \<in> S \<longleftrightarrow> j < length rows" for j using tracked by (auto simp: S_def)
  have "c \<in> fst ` set column_stats" using inv some inS unfolding stats_inv_def by blast
  then obtain st where st: "(c, st) \<in> set column_stats" by auto
  then have gm: "good_min rows S c st" and gx: "good_max rows S c st"
    using inv unfolding stats_inv_def by auto
  from gm obtain i m where mn: "(i, c) \<in> S" "min_row st = Some i" "cell_value (rows ! i) c = Some m"
    "\<forall>j w. (j, c) \<in> S \<and> cell_value (rows ! j) c = Some w \<longrightarrow> \<not> float_lt w m"
    unfolding good_min_def by blast
  from gx obtain i' m' where mx: "(i', c) \<in> S" "max_row st = Some i'" "cell_value (rows ! i') c = Some m'"
    "\<forall>j w. (j, c) \<in> S \<and> cell_value (rows ! j) c = Some w \<longrightarrow> \<not> float_lt m' w"
    unfolding good_max_def by blast
  from outlier_sample_ids_holds_outliers[OF ok stats pos big fits, of g] obtain ids where
    run: "outlier_sample_ids R config g columns rows = Inr ids"
    and sub: "set (collect_outliers column_stats []) \<subseteq> set ids" by blast
  have "i \<in> set (collect_outliers column_stats [])" "i' \<in> set (collect_outliers column_stats [])"
    unfolding collect_outliers_set using st mn(2) mx(2) by auto
  then have "i \<in> set ids" "i' \<in> set ids" using sub by auto
  then show ?thesis using run mn mx inS by blast
qed

lemma outlier_sample_small_input:
  assumes "collect_column_stats (columns_to_check_of config columns) rows 0 [] = Inr column_stats"
    and "int (length rows) \<le> target_rows config"
  shows "outlier_sample R config g columns rows = Inr rows"
proof (cases "rows = []")
  case True
  then show ?thesis using assms(1) by (simp add: outlier_sample_def outlier_sample_ids_def)
next
  case False
  then have "outlier_sample_ids R config g columns rows = Inr [0..<length rows]"
    using assms by (simp add: outlier_sample_ids_def)
  then show ?thesis by (simp add: outlier_sample_def map_nth)
qed

text \<open>
Claim C3 says that the sample holds a row with the minimum and a row with the maximum of
  every tracked numeric column when the target admits it. The outlier-aware sampler breaks
  this when the first numeric value of the column is a not-a-number: every later comparison
  with it is false, so that row stays both the minimum row and the maximum row. Here the
  column holds \<open>nan\<close>, 5, 1 and 9 and the target is 2: the statistics end with the
  \<open>nan\<close> row as both extremes, and the sample holds the \<open>nan\<close> row and the row of 5, but
  neither the row of 1 nor the row of 9.
\<close>

theorem outlier_sample_nan_first:
  "map (\<lambda>r. get_numeric_value (row_get r ''value''))
       [[(''value'', VStr ''nan'')], [(''value'', VStr ''5'')], [(''value'', VStr ''1'')], [(''value'', VStr ''9'')]]
     = [Inr (Some FNaN), Inr (Some (FFin 5)), Inr (Some (FFin 1)), Inr (Some (FFin 9))]
   \<and> collect_column_stats [''value'']
        [[(''value'', VStr ''nan'')], [(''value'', VStr ''5'')], [(''value'', VStr ''1'')], [(''value'', VStr ''9'')]] 0 []
     = Inr [(''value'', \<lparr> smin = Some FNaN, smax = Some FNaN, min_row = Some 0, max_row = Some 0 \<rparr>)]
   \<and> outlier_sample low_rng outlier_config 0 [''value'']
        [[(''value'', VStr ''nan'')], [(''value'', VStr ''5'')], [(''value'', VStr ''1'')], [(''value'', VStr ''9'')]]
     = Inr [[(''value'', VStr ''5'')], [(''value'', VStr ''nan'')]]"
  by code_simp

section \<open>The default chain and worked examples\<close>

text \<open>
  The example generator keeps the three contracts. The chain that the engine builds for
  the mode \<open>composite\<close> ends with the random sampler, so whatever it returns is within
  the target. The last lemma is the outlier scenario of the specification: the rows of
  3 and of 100 are in the sample of three.
\<close>

lemma low_rng_keeps_contracts: "randint_ok low_rng \<and> sample_ok low_rng \<and> shuffle_ok low_rng"
  by (auto simp: randint_ok_def sample_ok_def shuffle_ok_def low_rng_def)

lemma random_sample_length:
  assumes "randint_ok R" and "1 \<le> T"
  shows "\<exists>out. random_sample R T g rows = Inr out \<and> length out = min (nat T) (length rows)"
  using random_loop_inv[OF assms(1), of 0 "[]" T rows g] assms(2)
  by (auto simp: random_sample_def random_run_def)

lemma default_chain_bounded:
  assumes "randint_ok R" and "1 \<le> target_rows config"
    and "composite_sample (default_chain R str_hash config g columns) rows = Inr out"
  shows "int (length out) \<le> target_rows config"
proof -
  have c: "default_chain R str_hash config g columns =
             [outlier_sample R config g columns, time_sample R str_hash config g]
             @ [random_sample R (target_rows config) g]"
    by (simp add: default_chain_def)
  from assms(3) obtain mid where
    "random_sample R (target_rows config) g mid = Inr out"
    unfolding c composite_sample_snoc by (auto split: sum.splits)
  moreover from random_sample_length[OF assms(1,2), of g mid] obtain out' where
    "random_sample R (target_rows config) g mid = Inr out'"
    "length out' = min (nat (target_rows config)) (length mid)" by blast
  ultimately show ?thesis using assms(2) by auto
qed

lemma outlier_sample_scenario_S4:
  "outlier_sample low_rng (outlier_config\<lparr>target_rows := 3\<rparr>) 0 [''value'']
     (map (\<lambda>s. [(''value'', VStr s)]) [''5'', ''7'', ''8'', ''3'', ''100'', ''9''])
   = Inr (map (\<lambda>s. [(''value'', VStr s)]) [''5'', ''100'', ''3''])"
  by code_simp

end
